theory Spec2Isabelle
  imports Complex_Main "HOL-Library.Monad_Syntax"
begin

section \<open>JavaScript numbers\<close>

text \<open>
  A JavaScript \<^verbatim>\<open>number\<close> is a finite value, one of the two infinities, or NaN.
  The operations of this section are exact on finite values. The functions of the sections
  TunerEngine and PitchDetector are written with them: there the rounding of IEEE 754
  doubles, the rounding to single precision on a store into a \<^verbatim>\<open>Float32Array\<close> and the
  overflow of finite operands are left out. The section on rounded arithmetic gives the
  functions of the cents computation, the filter, the autocorrelation and the sub-sample
  refinement with a rounding after every operation. The sign of a zero is not
  distinguished; a zero divisor is taken as \<open>+0\<close>.
\<close>

datatype number = Fin real | PosInf | NegInf | NaN

fun isFinite :: "number \<Rightarrow> bool" where
  "isFinite (Fin a) = True"
| "isFinite _ = False"

fun sign_of :: "number \<Rightarrow> real" where
  "sign_of (Fin a) = sgn a"
| "sign_of PosInf = 1"
| "sign_of NegInf = - 1"
| "sign_of NaN = 0"

definition inf_of_sign :: "real \<Rightarrow> number" where
  "inf_of_sign s = (if 0 < s then PosInf else if s < 0 then NegInf else NaN)"

instantiation number :: "{zero, one, plus, minus, uminus, times, inverse, abs, ord}"
begin

definition zero_number :: number where
  "zero_number = Fin 0"

definition one_number :: number where
  "one_number = Fin 1"

fun plus_number :: "number \<Rightarrow> number \<Rightarrow> number" where
  "plus_number (Fin a) (Fin b) = Fin (a + b)"
| "plus_number NaN y = NaN"
| "plus_number x NaN = NaN"
| "plus_number PosInf NegInf = NaN"
| "plus_number NegInf PosInf = NaN"
| "plus_number PosInf y = PosInf"
| "plus_number x PosInf = PosInf"
| "plus_number NegInf y = NegInf"
| "plus_number x NegInf = NegInf"

fun uminus_number :: "number \<Rightarrow> number" where
  "uminus_number (Fin a) = Fin (- a)"
| "uminus_number PosInf = NegInf"
| "uminus_number NegInf = PosInf"
| "uminus_number NaN = NaN"

definition minus_number :: "number \<Rightarrow> number \<Rightarrow> number" where
  "minus_number x y = x + (- y)"

fun times_number :: "number \<Rightarrow> number \<Rightarrow> number" where
  "times_number (Fin a) (Fin b) = Fin (a * b)"
| "times_number NaN y = NaN"
| "times_number x NaN = NaN"
| "times_number x y = inf_of_sign (sign_of x * sign_of y)"

fun divide_number :: "number \<Rightarrow> number \<Rightarrow> number" where
  "divide_number (Fin a) (Fin b) = (if b = 0 then inf_of_sign (sgn a) else Fin (a / b))"
| "divide_number NaN y = NaN"
| "divide_number x NaN = NaN"
| "divide_number (Fin a) y = Fin 0"
| "divide_number x (Fin b) = inf_of_sign (sign_of x * (if b < 0 then - 1 else 1))"
| "divide_number x y = NaN"

definition inverse_number :: "number \<Rightarrow> number" where
  "inverse_number x = divide (Fin 1) x"

fun abs_number :: "number \<Rightarrow> number" where
  "abs_number (Fin a) = Fin \<bar>a\<bar>"
| "abs_number PosInf = PosInf"
| "abs_number NegInf = PosInf"
| "abs_number NaN = NaN"

fun less_number :: "number \<Rightarrow> number \<Rightarrow> bool" where
  "less_number (Fin a) (Fin b) = (a < b)"
| "less_number NaN y = False"
| "less_number x NaN = False"
| "less_number x NegInf = False"
| "less_number PosInf y = False"
| "less_number x y = True"

definition less_eq_number :: "number \<Rightarrow> number \<Rightarrow> bool" where
  "less_eq_number x y = (x < y \<or> (x = y \<and> x \<noteq> NaN))"

instance ..

end

text \<open>Strict equality \<^verbatim>\<open>===\<close> on numbers: NaN equals nothing, itself included.\<close>

definition strict_eq :: "number \<Rightarrow> number \<Rightarrow> bool" where
  "strict_eq x y = (x = y \<and> x \<noteq> NaN)"

fun Math_floor :: "number \<Rightarrow> number" where
  "Math_floor (Fin a) = Fin (of_int \<lfloor>a\<rfloor>)"
| "Math_floor x = x"

text \<open>\<^verbatim>\<open>Math.round\<close>: the nearest integer, a tie going towards \<open>+\<infinity>\<close>.\<close>

fun Math_round :: "number \<Rightarrow> number" where
  "Math_round (Fin a) = Fin (of_int \<lfloor>a + 1 / 2\<rfloor>)"
| "Math_round x = x"

fun Math_log2 :: "number \<Rightarrow> number" where
  "Math_log2 (Fin a) = (if 0 < a then Fin (log 2 a) else if a = 0 then NegInf else NaN)"
| "Math_log2 PosInf = PosInf"
| "Math_log2 NegInf = NaN"
| "Math_log2 NaN = NaN"

definition Math_min :: "number \<Rightarrow> number \<Rightarrow> number" where
  "Math_min x y = (if x = NaN \<or> y = NaN then NaN else if x < y then x else y)"

section \<open>types.ts\<close>

text \<open>The field \<^verbatim>\<open>note\<close> of the source is \<open>noteName\<close> here.\<close>

record NoteData =
  frequency :: number
  noteName :: string
  cents :: number
  isInTune :: bool
  confidence :: number

definition GUITAR_TUNING :: "(string \<times> real) list" where
  "GUITAR_TUNING =
     [(''E2'', 82.41), (''A2'', 110.00), (''D3'', 146.83),
      (''G3'', 196.00), (''B3'', 246.94), (''E4'', 329.63)]"

definition TUNING_TOLERANCE_CENTS :: real where
  "TUNING_TOLERANCE_CENTS = 5"

section \<open>TunerEngine\<close>

text \<open>The constructor: the entries of the table, sorted by frequency (a stable sort).\<close>

definition guitarNotes :: "(string \<times> real) list" where
  "guitarNotes = sort_key snd GUITAR_TUNING"

text \<open>\<^verbatim>\<open>GUITAR_TUNING[name]\<close>: a missing key reads \<^verbatim>\<open>undefined\<close>, NaN in arithmetic.\<close>

definition tuningOf :: "string \<Rightarrow> number" where
  "tuningOf name = (case map_of GUITAR_TUNING name of Some f \<Rightarrow> Fin f | None \<Rightarrow> NaN)"

fun closestLoop ::
  "number \<Rightarrow> (string \<times> real) list \<Rightarrow> (string \<times> real) \<times> number \<Rightarrow> (string \<times> real) \<times> number" where
  "closestLoop freq [] (closestNote, minDifference) = (closestNote, minDifference)"
| "closestLoop freq (noteData # rest) (closestNote, minDifference) =
     (let difference = \<bar>freq - Fin (snd noteData)\<bar>
      in if difference < minDifference
         then closestLoop freq rest (noteData, difference)
         else closestLoop freq rest (closestNote, minDifference))"

definition getClosestGuitarNote :: "number \<Rightarrow> string" where
  "getClosestGuitarNote freq =
     (let closestNote = hd guitarNotes;
          minDifference = \<bar>freq - Fin (snd closestNote)\<bar>
      in fst (fst (closestLoop freq guitarNotes (closestNote, minDifference))))"

definition calculateCentsDifference :: "number \<Rightarrow> number \<Rightarrow> number" where
  "calculateCentsDifference freq targetFrequency =
     Math_round (Fin 1200 * Math_log2 (freq / targetFrequency))"

definition analyzeNote :: "number \<Rightarrow> number \<Rightarrow> NoteData" where
  "analyzeNote freq conf =
     (let closestNote = getClosestGuitarNote freq;
          targetFrequency = tuningOf closestNote;
          cents = calculateCentsDifference freq targetFrequency;
          isInTune = (\<bar>cents\<bar> \<le> Fin TUNING_TOLERANCE_CENTS)
      in \<lparr> frequency = freq, noteName = closestNote, cents = cents,
           isInTune = isInTune, confidence = conf \<rparr>)"

section \<open>PitchDetector\<close>

record AudioConfig =
  sampleRate :: real
  bufferSize :: real
  minVolumeThreshold :: real
  maxFrequency :: real
  minFrequency :: real

definition DEFAULT_AUDIO_CONFIG :: AudioConfig where
  "DEFAULT_AUDIO_CONFIG =
     \<lparr> sampleRate = 44100, bufferSize = 4096, minVolumeThreshold = 0.01,
       maxFrequency = 400, minFrequency = 70 \<rparr>"

text \<open>
  The detector's two fields. The sample rate and the two band limits are finite and
  positive numbers (the configuration the detector is built for), so the two period
  bounds are integers.
\<close>

record PitchDetector =
  this_sampleRate :: real
  this_config :: AudioConfig

definition updateSampleRate :: "PitchDetector \<Rightarrow> real \<Rightarrow> PitchDetector" where
  "updateSampleRate this newRate = this\<lparr>this_sampleRate := newRate\<rparr>"

text \<open>
  A typed array is a list. A read outside the range gives \<^verbatim>\<open>undefined\<close>, which is NaN in
  arithmetic and makes every comparison false; a write outside the range is ignored.
\<close>

definition arr_get :: "number list \<Rightarrow> int \<Rightarrow> number" where
  "arr_get xs i = (if 0 \<le> i \<and> i < int (length xs) then xs ! nat i else NaN)"

definition arr_set :: "number list \<Rightarrow> int \<Rightarrow> number \<Rightarrow> number list" where
  "arr_set xs i v = (if 0 \<le> i \<and> i < int (length xs) then xs[nat i := v] else xs)"

text \<open>\<^verbatim>\<open>new Float32Array(n)\<close>: n zeros.\<close>

definition new_Float32Array :: "nat \<Rightarrow> number list" where
  "new_Float32Array n = replicate n (Fin 0)"

text \<open>\<^verbatim>\<open>xs.reduce((sum, val) => sum + val, 0)\<close>\<close>

definition reduce_sum :: "number list \<Rightarrow> number" where
  "reduce_sum xs = foldl (\<lambda>sum val. sum + val) 0 xs"

subsection \<open>applyGuitarFrequencyFilter\<close>

function lowPassLoop :: "number \<Rightarrow> number list \<Rightarrow> number list \<Rightarrow> int \<Rightarrow> number list" where
  "lowPassLoop alpha buffer filtered i =
     (if i < int (length buffer)
      then lowPassLoop alpha buffer
             (arr_set filtered i
                (alpha * arr_get filtered (i - 1) + (1 - alpha) * arr_get buffer i))
             (i + 1)
      else filtered)"
  by pat_completeness auto
termination
  by (relation "measure (\<lambda>(alpha, buffer, filtered, i). nat (int (length buffer) - i))") auto

function removeMeanLoop :: "number \<Rightarrow> number list \<Rightarrow> int \<Rightarrow> number list" where
  "removeMeanLoop mean filtered i =
     (if i < int (length filtered)
      then removeMeanLoop mean (arr_set filtered i (arr_get filtered i - mean)) (i + 1)
      else filtered)"
  by pat_completeness auto
termination
  by (relation "measure (\<lambda>(mean, filtered, i). nat (int (length filtered) - i))")
    (auto simp: arr_set_def)

definition applyGuitarFrequencyFilter :: "number list \<Rightarrow> number list" where
  "applyGuitarFrequencyFilter buffer =
     (let filtered = new_Float32Array (length buffer);
          alpha = Fin 0.8;
          filtered = arr_set filtered 0 (arr_get buffer 0);
          filtered = lowPassLoop alpha buffer filtered 1;
          mean = reduce_sum filtered / Fin (real (length filtered))
      in removeMeanLoop mean filtered 0)"

subsection \<open>autocorrelate\<close>

text \<open>The running sum \<^verbatim>\<open>sum\<close> of the inner loop is \<open>lagSum\<close> here.\<close>

function centerLoop :: "number list \<Rightarrow> number \<Rightarrow> number list \<Rightarrow> int \<Rightarrow> number list" where
  "centerLoop buffer mean centeredBuffer i =
     (if i < int (length buffer)
      then centerLoop buffer mean (arr_set centeredBuffer i (arr_get buffer i - mean)) (i + 1)
      else centeredBuffer)"
  by pat_completeness auto
termination
  by (relation "measure (\<lambda>(buffer, mean, centeredBuffer, i). nat (int (length buffer) - i))") auto

function sumSquaresLoop :: "number list \<Rightarrow> int \<Rightarrow> number \<Rightarrow> int \<Rightarrow> number" where
  "sumSquaresLoop centeredBuffer bufferLength sumSquares i =
     (if i < bufferLength
      then sumSquaresLoop centeredBuffer bufferLength
             (sumSquares + arr_get centeredBuffer i * arr_get centeredBuffer i) (i + 1)
      else sumSquares)"
  by pat_completeness auto
termination
  by (relation "measure (\<lambda>(centeredBuffer, bufferLength, sumSquares, i). nat (bufferLength - i))")
    auto

function lagSumLoop :: "number list \<Rightarrow> int \<Rightarrow> int \<Rightarrow> number \<Rightarrow> int \<Rightarrow> number" where
  "lagSumLoop centeredBuffer lag samplesUsed lagSum i =
     (if i < samplesUsed
      then lagSumLoop centeredBuffer lag samplesUsed
             (lagSum + arr_get centeredBuffer i * arr_get centeredBuffer (i + lag)) (i + 1)
      else lagSum)"
  by pat_completeness auto
termination
  by (relation "measure (\<lambda>(centeredBuffer, lag, samplesUsed, lagSum, i). nat (samplesUsed - i))")
    auto

function lagLoop :: "number list \<Rightarrow> int \<Rightarrow> number \<Rightarrow> number list \<Rightarrow> int \<Rightarrow> number list" where
  "lagLoop centeredBuffer bufferLength sumSquares correlations lag =
     (if lag < int (length correlations)
      then (let samplesUsed = bufferLength - lag;
                lagSum = lagSumLoop centeredBuffer lag samplesUsed 0 0
            in lagLoop centeredBuffer bufferLength sumSquares
                 (arr_set correlations lag (lagSum / sumSquares)) (lag + 1))
      else correlations)"
  by pat_completeness auto
termination
  by (relation "measure (\<lambda>(centeredBuffer, bufferLength, sumSquares, correlations, lag).
                  nat (int (length correlations) - lag))")
    (auto simp: arr_set_def)

definition autocorrelate :: "number list \<Rightarrow> number list" where
  "autocorrelate buffer =
     (let bufferLength = int (length buffer);
          correlations = new_Float32Array (nat \<lfloor>real_of_int bufferLength / 2\<rfloor>);
          mean = reduce_sum buffer / Fin (real_of_int bufferLength);
          centeredBuffer = new_Float32Array (nat bufferLength);
          centeredBuffer = centerLoop buffer mean centeredBuffer 0;
          sumSquares = sumSquaresLoop centeredBuffer bufferLength 0 0
      in if strict_eq sumSquares 0 then correlations
         else lagLoop centeredBuffer bufferLength sumSquares correlations 0)"

subsection \<open>calculateConsistencyBonus, calculateConfidence, parabolicInterpolation\<close>

function harmonicLoop :: "number list \<Rightarrow> int \<Rightarrow> int \<Rightarrow> int \<times> int \<Rightarrow> int \<times> int" where
  "harmonicLoop correlations bestPeriod harmonic (consistentPeaks, totalChecked) =
     (if harmonic \<le> 4
      then (let windowSize = 3;
                harmonicPeriod = \<lfloor>real_of_int bestPeriod / real_of_int harmonic\<rfloor>
            in if harmonicPeriod \<ge> windowSize \<and>
                  harmonicPeriod < int (length correlations) - windowSize
               then (let harmonicCorrelation = arr_get correlations harmonicPeriod;
                         avgNeighbor = (arr_get correlations (harmonicPeriod - 1) +
                                        arr_get correlations (harmonicPeriod + 1)) / Fin 2
                     in harmonicLoop correlations bestPeriod (harmonic + 1)
                          (if harmonicCorrelation > avgNeighbor * Fin 1.1
                           then consistentPeaks + 1 else consistentPeaks,
                           totalChecked + 1))
               else harmonicLoop correlations bestPeriod (harmonic + 1)
                      (consistentPeaks, totalChecked))
      else (consistentPeaks, totalChecked))"
  by pat_completeness auto
termination
  by (relation "measure (\<lambda>(correlations, bestPeriod, harmonic, st). nat (5 - harmonic))") auto

definition calculateConsistencyBonus :: "number list \<Rightarrow> int \<Rightarrow> number" where
  "calculateConsistencyBonus correlations bestPeriod =
     (case harmonicLoop correlations bestPeriod 2 (0, 0) of
        (consistentPeaks, totalChecked) \<Rightarrow>
          if totalChecked > 0
          then Fin (real_of_int consistentPeaks) / Fin (real_of_int totalChecked)
          else 0)"

definition calculateConfidence ::
  "PitchDetector \<Rightarrow> number \<Rightarrow> number \<Rightarrow> number list \<Rightarrow> int \<Rightarrow> number" where
  "calculateConfidence this maxCorrelation secondBestCorrelation correlations bestPeriod =
     (let conf = maxCorrelation;
          correlationRatio = (if secondBestCorrelation > 0
                              then maxCorrelation / secondBestCorrelation
                              else maxCorrelation);
          conf = conf * Math_min (correlationRatio / Fin 2) 1;
          freq = Fin (this_sampleRate this) / Fin (real_of_int bestPeriod);
          conf = (if freq < Fin 150 then conf * Fin 1.1 else conf);
          consistencyBonus = calculateConsistencyBonus correlations bestPeriod;
          conf = conf * (1 + consistencyBonus * Fin 0.2)
      in Math_min conf 1)"

definition parabolicInterpolation :: "PitchDetector \<Rightarrow> number list \<Rightarrow> int \<Rightarrow> number" where
  "parabolicInterpolation this correlations peakIndex =
     (if peakIndex \<le> 0 \<or> peakIndex \<ge> int (length correlations) - 1
      then Fin (this_sampleRate this) / Fin (real_of_int peakIndex)
      else (let y1 = arr_get correlations (peakIndex - 1);
                y2 = arr_get correlations peakIndex;
                y3 = arr_get correlations (peakIndex + 1);
                a = (y1 - Fin 2 * y2 + y3) / Fin 2;
                b = (y3 - y1) / Fin 2
            in if strict_eq a 0
               then Fin (this_sampleRate this) / Fin (real_of_int peakIndex)
               else (let xOffset = - b / (Fin 2 * a);
                         interpolatedPeriod = Fin (real_of_int peakIndex) + xOffset
                     in Fin (this_sampleRate this) / interpolatedPeriod)))"

subsection \<open>findFundamentalFrequencyWithConfidence\<close>

definition minPeriod :: "PitchDetector \<Rightarrow> int" where
  "minPeriod this = \<lfloor>this_sampleRate this / maxFrequency (this_config this)\<rfloor>"

definition maxPeriod :: "PitchDetector \<Rightarrow> int" where
  "maxPeriod this = \<lfloor>this_sampleRate this / minFrequency (this_config this)\<rfloor>"

text \<open>The body of the scan: the state is (maxCorrelation, bestPeriod, secondBestCorrelation).\<close>

definition scanStep :: "number list \<Rightarrow> int \<Rightarrow> number \<times> int \<times> number \<Rightarrow> number \<times> int \<times> number" where
  "scanStep correlations period st =
     (case st of (maxCorrelation, bestPeriod, secondBestCorrelation) \<Rightarrow>
        (let correlation = arr_get correlations period;
             isLocalMax = (correlation > arr_get correlations (period - 1) \<and>
                           correlation > arr_get correlations (period + 1))
         in if isLocalMax
            then (if correlation > maxCorrelation
                  then (correlation, period, maxCorrelation)
                  else if correlation > secondBestCorrelation
                  then (maxCorrelation, bestPeriod, correlation)
                  else (maxCorrelation, bestPeriod, secondBestCorrelation))
            else (maxCorrelation, bestPeriod, secondBestCorrelation)))"

function scanLoop ::
  "number list \<Rightarrow> int \<Rightarrow> int \<Rightarrow> number \<times> int \<times> number \<Rightarrow> number \<times> int \<times> number" where
  "scanLoop correlations bound period st =
     (if period < bound
      then scanLoop correlations bound (period + 1) (scanStep correlations period st)
      else st)"
  by pat_completeness auto
termination
  by (relation "measure (\<lambda>(correlations, bound, period, st). nat (bound - period))") auto

definition findPeak :: "PitchDetector \<Rightarrow> number list \<Rightarrow> number \<times> int \<times> number" where
  "findPeak this correlations =
     scanLoop correlations (min (maxPeriod this) (int (length correlations) - 1))
       (minPeriod this) (0, 0, 0)"

definition findFundamentalFrequencyWithConfidence ::
  "PitchDetector \<Rightarrow> number list \<Rightarrow> (number \<times> number) option" where
  "findFundamentalFrequencyWithConfidence this correlations =
     (case findPeak this correlations of
        (maxCorrelation, bestPeriod, secondBestCorrelation) \<Rightarrow>
          (let threshold = Fin 0.15
           in if maxCorrelation < threshold \<or> bestPeriod = 0 then None
              else (let conf = calculateConfidence this maxCorrelation secondBestCorrelation
                                 correlations bestPeriod;
                        freq = parabolicInterpolation this correlations bestPeriod
                    in Some (freq, conf))))"

subsection \<open>detectPitch, detectPitchWithConfidence\<close>

definition detectPitch :: "PitchDetector \<Rightarrow> number list \<Rightarrow> number option" where
  "detectPitch this audioBuffer =
     (if length audioBuffer = 0 then None
      else (let filteredBuffer = applyGuitarFrequencyFilter audioBuffer;
                correlations = autocorrelate filteredBuffer
            in case findFundamentalFrequencyWithConfidence this correlations of
                 None \<Rightarrow> None
               | Some (freq, conf) \<Rightarrow>
                   if freq < Fin (minFrequency (this_config this)) \<or>
                      freq > Fin (maxFrequency (this_config this))
                   then None
                   else if conf < Fin 0.3 then None
                   else Some freq))"

definition detectPitchWithConfidence ::
  "PitchDetector \<Rightarrow> number list \<Rightarrow> (number \<times> number) option" where
  "detectPitchWithConfidence this audioBuffer =
     (if length audioBuffer = 0 then None
      else (let filteredBuffer = applyGuitarFrequencyFilter audioBuffer;
                correlations = autocorrelate filteredBuffer
            in case findFundamentalFrequencyWithConfidence this correlations of
                 None \<Rightarrow> None
               | Some (freq, conf) \<Rightarrow>
                   if freq < Fin (minFrequency (this_config this)) \<or>
                      freq > Fin (maxFrequency (this_config this))
                   then None
                   else Some (freq, conf)))"

section \<open>Peak selection with checked reads\<close>

text \<open>
  The same peak selection, confidence scoring and refinement, where a read outside the
  array and a division of the sample rate by a zero period are faults: the result is
  \<open>None\<close> as soon as one happens, and \<open>Some\<close> of the value otherwise. The reads are made in
  the order of the source; the second comparison of the local-maximum test is evaluated
  only when the first holds.
\<close>

definition arr_read :: "number list \<Rightarrow> int \<Rightarrow> number option" where
  "arr_read xs i = (if 0 \<le> i \<and> i < int (length xs) then Some (xs ! nat i) else None)"

definition scanStep_checked ::
  "number list \<Rightarrow> int \<Rightarrow> number \<times> int \<times> number \<Rightarrow> (number \<times> int \<times> number) option" where
  "scanStep_checked correlations period st =
     (case st of (maxCorrelation, bestPeriod, secondBestCorrelation) \<Rightarrow>
        do {
          correlation \<leftarrow> arr_read correlations period;
          before \<leftarrow> arr_read correlations (period - 1);
          isLocalMax \<leftarrow> (if correlation > before
                         then do {
                           after \<leftarrow> arr_read correlations (period + 1);
                           Some (correlation > after)
                         }
                         else Some False);
          Some (if isLocalMax
                then (if correlation > maxCorrelation
                      then (correlation, period, maxCorrelation)
                      else if correlation > secondBestCorrelation
                      then (maxCorrelation, bestPeriod, correlation)
                      else (maxCorrelation, bestPeriod, secondBestCorrelation))
                else (maxCorrelation, bestPeriod, secondBestCorrelation))
        })"

function scanLoop_checked ::
  "number list \<Rightarrow> int \<Rightarrow> int \<Rightarrow> number \<times> int \<times> number \<Rightarrow> (number \<times> int \<times> number) option" where
  "scanLoop_checked correlations bound period st =
     (if period < bound
      then do {
        st' \<leftarrow> scanStep_checked correlations period st;
        scanLoop_checked correlations bound (period + 1) st'
      }
      else Some st)"
  by pat_completeness auto
termination
  by (relation "measure (\<lambda>(correlations, bound, period, st). nat (bound - period))") auto

function harmonicLoop_checked ::
  "number list \<Rightarrow> int \<Rightarrow> int \<Rightarrow> int \<times> int \<Rightarrow> (int \<times> int) option" where
  "harmonicLoop_checked correlations bestPeriod harmonic (consistentPeaks, totalChecked) =
     (if harmonic \<le> 4
      then (let windowSize = 3;
                harmonicPeriod = \<lfloor>real_of_int bestPeriod / real_of_int harmonic\<rfloor>
            in if harmonicPeriod \<ge> windowSize \<and>
                  harmonicPeriod < int (length correlations) - windowSize
               then do {
                 harmonicCorrelation \<leftarrow> arr_read correlations harmonicPeriod;
                 before \<leftarrow> arr_read correlations (harmonicPeriod - 1);
                 after \<leftarrow> arr_read correlations (harmonicPeriod + 1);
                 harmonicLoop_checked correlations bestPeriod (harmonic + 1)
                   (if harmonicCorrelation > (before + after) / Fin 2 * Fin 1.1
                    then consistentPeaks + 1 else consistentPeaks,
                    totalChecked + 1)
               }
               else harmonicLoop_checked correlations bestPeriod (harmonic + 1)
                      (consistentPeaks, totalChecked))
      else Some (consistentPeaks, totalChecked))"
  by pat_completeness auto
termination
  by (relation "measure (\<lambda>(correlations, bestPeriod, harmonic, st). nat (5 - harmonic))") auto

definition calculateConsistencyBonus_checked :: "number list \<Rightarrow> int \<Rightarrow> number option" where
  "calculateConsistencyBonus_checked correlations bestPeriod =
     do {
       (consistentPeaks, totalChecked) \<leftarrow> harmonicLoop_checked correlations bestPeriod 2 (0, 0);
       Some (if totalChecked > 0
             then Fin (real_of_int consistentPeaks) / Fin (real_of_int totalChecked)
             else 0)
     }"

definition calculateConfidence_checked ::
  "PitchDetector \<Rightarrow> number \<Rightarrow> number \<Rightarrow> number list \<Rightarrow> int \<Rightarrow> number option" where
  "calculateConfidence_checked this maxCorrelation secondBestCorrelation correlations bestPeriod =
     (let conf = maxCorrelation;
          correlationRatio = (if secondBestCorrelation > 0
                              then maxCorrelation / secondBestCorrelation
                              else maxCorrelation);
          conf = conf * Math_min (correlationRatio / Fin 2) 1
      in do {
        freq \<leftarrow> (if bestPeriod = 0 then None
                 else Some (Fin (this_sampleRate this) / Fin (real_of_int bestPeriod)));
        consistencyBonus \<leftarrow> calculateConsistencyBonus_checked correlations bestPeriod;
        Some (Math_min ((if freq < Fin 150 then conf * Fin 1.1 else conf)
                        * (1 + consistencyBonus * Fin 0.2)) 1)
      })"

definition parabolicInterpolation_checked ::
  "PitchDetector \<Rightarrow> number list \<Rightarrow> int \<Rightarrow> number option" where
  "parabolicInterpolation_checked this correlations peakIndex =
     (if peakIndex \<le> 0 \<or> peakIndex \<ge> int (length correlations) - 1
      then (if peakIndex = 0 then None
            else Some (Fin (this_sampleRate this) / Fin (real_of_int peakIndex)))
      else do {
        y1 \<leftarrow> arr_read correlations (peakIndex - 1);
        y2 \<leftarrow> arr_read correlations peakIndex;
        y3 \<leftarrow> arr_read correlations (peakIndex + 1);
        (let a = (y1 - Fin 2 * y2 + y3) / Fin 2;
             b = (y3 - y1) / Fin 2
         in if strict_eq a 0
            then (if peakIndex = 0 then None
                  else Some (Fin (this_sampleRate this) / Fin (real_of_int peakIndex)))
            else (let xOffset = - b / (Fin 2 * a);
                      interpolatedPeriod = Fin (real_of_int peakIndex) + xOffset
                  in Some (Fin (this_sampleRate this) / interpolatedPeriod)))
      })"

definition findFundamentalFrequencyWithConfidence_checked ::
  "PitchDetector \<Rightarrow> number list \<Rightarrow> (number \<times> number) option option" where
  "findFundamentalFrequencyWithConfidence_checked this correlations =
     do {
       (maxCorrelation, bestPeriod, secondBestCorrelation) \<leftarrow>
         scanLoop_checked correlations (min (maxPeriod this) (int (length correlations) - 1))
           (minPeriod this) (0, 0, 0);
       (let threshold = Fin 0.15
        in if maxCorrelation < threshold \<or> bestPeriod = 0 then Some None
           else do {
             conf \<leftarrow> calculateConfidence_checked this maxCorrelation secondBestCorrelation
                       correlations bestPeriod;
             freq \<leftarrow> parabolicInterpolation_checked this correlations bestPeriod;
             Some (Some (freq, conf))
           })
     }"

text \<open>The invariant of the configuration: \<open>0 < minFrequency < maxFrequency < sampleRate / 2\<close>.\<close>

definition configInvariant :: "PitchDetector \<Rightarrow> bool" where
  "configInvariant this =
     (0 < minFrequency (this_config this) \<and>
      minFrequency (this_config this) < maxFrequency (this_config this) \<and>
      maxFrequency (this_config this) < this_sampleRate this / 2)"

section \<open>Reference definitions\<close>

text \<open>
  Rounding to the nearest integer with a tie going away from zero, the rounding the
  specification attributes to the cents computation.
\<close>

definition round_half_away :: "real \<Rightarrow> int" where
  "round_half_away x = (if 0 \<le> x then \<lfloor>x + 1 / 2\<rfloor> else - \<lfloor>- x + 1 / 2\<rfloor>)"

text \<open>
  The preprocessing filter as the specification words it: the single-pole low-pass
  \<open>y[0] = x[0]\<close>, \<open>y[i] = 0.8 \<sqdot> y[i-1] + 0.2 \<sqdot> x[i]\<close>, then the arithmetic mean of \<open>y\<close>
  subtracted from every sample.
\<close>

fun lowpass :: "real list \<Rightarrow> nat \<Rightarrow> real" where
  "lowpass x 0 = x ! 0"
| "lowpass x (Suc i) = 0.8 * lowpass x i + 0.2 * x ! Suc i"

definition spec_filter :: "real list \<Rightarrow> real list" where
  "spec_filter x =
     (let y = map (lowpass x) [0..<length x];
          mean = sum_list y / real (length y)
      in map (\<lambda>v. v - mean) y)"

text \<open>
  The autocorrelation as the specification words it: the mean-centred samples, their sum
  of squares, and for a lag \<open>L\<close> the sum of \<open>centered[i] \<sqdot> centered[i+L]\<close> for \<open>i\<close> from 0
  to \<open>N-L-1\<close>.
\<close>

definition centered :: "real list \<Rightarrow> real list" where
  "centered xs = map (\<lambda>v. v - sum_list xs / real (length xs)) xs"

definition sumSquares_of :: "real list \<Rightarrow> real" where
  "sumSquares_of xs = (\<Sum>i = 0..<length xs. centered xs ! i * centered xs ! i)"

definition lagProducts :: "real list \<Rightarrow> nat \<Rightarrow> real" where
  "lagProducts xs L = (\<Sum>i = 0..<length xs - L. centered xs ! i * centered xs ! (i + L))"


text \<open>
  The consistency bonus in closed form: among the harmonics 2, 3, 4 whose
  period \<open>\<lfloor>bestPeriod / h\<rfloor>\<close> is at least 3 and below \<open>length - 3\<close>, the fraction whose
  correlation exceeds the average of its two neighbours by more than 10%.
\<close>

definition harmonicChecked :: "number list \<Rightarrow> int \<Rightarrow> int \<Rightarrow> bool" where
  "harmonicChecked cs bestPeriod h =
     (3 \<le> bestPeriod div h \<and> bestPeriod div h < int (length cs) - 3)"

definition harmonicConsistent :: "number list \<Rightarrow> int \<Rightarrow> int \<Rightarrow> bool" where
  "harmonicConsistent cs bestPeriod h =
     (arr_get cs (bestPeriod div h) >
        (arr_get cs (bestPeriod div h - 1) + arr_get cs (bestPeriod div h + 1)) / Fin 2 * Fin 1.1)"

definition harmonicFraction :: "number list \<Rightarrow> int \<Rightarrow> real" where
  "harmonicFraction cs bestPeriod =
     (let checked = filter (harmonicChecked cs bestPeriod) [2, 3, 4];
          consistent = filter (harmonicConsistent cs bestPeriod) checked
      in if checked = [] then 0 else real (length consistent) / real (length checked))"

text \<open>A detector with short periods, for concrete inputs: \<open>0 < 20 < 40 < 100 / 2\<close>.\<close>

definition smallDetector :: PitchDetector where
  "smallDetector =
     \<lparr> this_sampleRate = 100,
       this_config = \<lparr> sampleRate = 100, bufferSize = 16, minVolumeThreshold = 0.01,
                       maxFrequency = 40, minFrequency = 20 \<rparr> \<rparr>"

text \<open>
  A strict local maximum of the correlations, the candidate lags that the scan visits, and
  the candidate lags as the specification words the range (up to
  \<open>min (maxPeriod, length - 2)\<close>, that bound included).
\<close>

definition isLocalMax :: "number list \<Rightarrow> int \<Rightarrow> bool" where
  "isLocalMax cs L = (arr_get cs L > arr_get cs (L - 1) \<and> arr_get cs L > arr_get cs (L + 1))"



text \<open>
  The invariant of the scan: the local maxima visited before period \<open>p\<close>, and what the
  state records about them.
\<close>

definition scanned :: "number list \<Rightarrow> int \<Rightarrow> int \<Rightarrow> int set" where
  "scanned cs lo p = {L. lo \<le> L \<and> L < p \<and> isLocalMax cs L}"

definition scanInv :: "number list \<Rightarrow> int \<Rightarrow> int \<Rightarrow> number \<times> int \<times> number \<Rightarrow> bool" where
  "scanInv cs lo p st =
     (case st of (mc, bp, sb) \<Rightarrow>
        (bp = 0 \<and> mc = Fin 0 \<and> (\<forall>L \<in> scanned cs lo p. \<not> arr_get cs L > Fin 0)) \<or>
        (bp \<in> scanned cs lo p \<and> mc = arr_get cs bp \<and> mc > Fin 0 \<and>
           (\<forall>L \<in> scanned cs lo p. arr_get cs L \<le> mc) \<and>
           (\<forall>L \<in> scanned cs lo bp. arr_get cs L < mc)))"

text \<open>
  A running sum \<open>s\<close> that has met the non-finite value \<open>x\<close>: it is NaN or \<open>x\<close> itself.
\<close>

definition absorbed :: "number \<Rightarrow> number \<Rightarrow> bool" where
  "absorbed x s = (s = NaN \<or> s = x)"

section \<open>Rounded arithmetic\<close>

text \<open>
  A JavaScript number is an IEEE 754 double: an arithmetic operation on finite operands
  returns the exact result rounded to a double, which may be an infinity, and a store into
  a \<^verbatim>\<open>Float32Array\<close> rounds the stored double to single precision, which may be an
  infinity as well. The functions of this section, which carry the names of the source with
  the suffix \<open>_fp\<close>, are those of the source with these roundings: every \<^verbatim>\<open>+\<close>, \<^verbatim>\<open>-\<close>,
  \<^verbatim>\<open>*\<close> and \<^verbatim>\<open>/\<close> is the exact operation followed by \<open>dbl\<close>, every store into a typed
  array is followed by \<open>sgl\<close>, and a decimal literal is \<open>dbl\<close> of its value. Integers
  (indices, lengths and the literals 0, 1, 2 and 1200) are doubles already; negation, the
  absolute value, \<^verbatim>\<open>Math.round\<close> and the comparisons are exact. \<^verbatim>\<open>Math.log2\<close> is left to
  the platform by the language: \<open>log2_of\<close> is its value on a positive finite argument.

  The roundings are the fields of a record, so that what is proved for every such record
  holds for the arithmetic of every platform. \<open>exact\<close> is the record that does not round:
  with it the functions of this section are the functions of the sections above. \<open>ieee\<close>
  is round-to-nearest, ties to even, in binary64 and binary32 with a correctly rounded
  logarithm.

  Every zero divisor of these functions is \<open>+0\<close> in the source: an index or a length that
  is 0, or a sum of a double and its opposite; a sum of squares is divided by only after
  the test \<^verbatim>\<open>sumSquares === 0\<close> has failed.
\<close>

record arith =
  dbl :: "real \<Rightarrow> number"
  sgl :: "real \<Rightarrow> number"
  log2_of :: "real \<Rightarrow> number"

text \<open>The rounding \<open>f\<close> applied to a result: an infinity or NaN stays what it is.\<close>

fun rnd :: "(real \<Rightarrow> number) \<Rightarrow> number \<Rightarrow> number" where
  "rnd f (Fin a) = f a"
| "rnd f PosInf = PosInf"
| "rnd f NegInf = NegInf"
| "rnd f NaN = NaN"

definition fadd :: "arith \<Rightarrow> number \<Rightarrow> number \<Rightarrow> number" where
  "fadd ar x y = rnd (dbl ar) (x + y)"

definition fsub :: "arith \<Rightarrow> number \<Rightarrow> number \<Rightarrow> number" where
  "fsub ar x y = rnd (dbl ar) (x - y)"

definition fmul :: "arith \<Rightarrow> number \<Rightarrow> number \<Rightarrow> number" where
  "fmul ar x y = rnd (dbl ar) (x * y)"

definition fdiv :: "arith \<Rightarrow> number \<Rightarrow> number \<Rightarrow> number" where
  "fdiv ar x y = rnd (dbl ar) (x / y)"

text \<open>A store into a \<^verbatim>\<open>Float32Array\<close>.\<close>

definition f32_set :: "arith \<Rightarrow> number list \<Rightarrow> int \<Rightarrow> number \<Rightarrow> number list" where
  "f32_set ar xs i v = arr_set xs i (rnd (sgl ar) v)"

definition exact :: arith where
  "exact = \<lparr> dbl = Fin, sgl = Fin, log2_of = (\<lambda>a. Fin (log 2 a)) \<rparr>"

subsection \<open>Round to nearest, ties to even\<close>

text \<open>
  \<open>fl p emin emax\<close> rounds a real to the format with \<open>p\<close> significant bits and the
  exponents \<open>emin\<close> to \<open>emax\<close>: the multiple of \<open>2\<^sup>e\<^sup>-\<^sup>p\<^sup>+\<^sup>1\<close> nearest to it, where \<open>2\<^sup>e\<close> is
  the power of two at or below its magnitude and \<open>e\<close> is at least \<open>emin\<close> (below
  \<open>2\<^sup>e\<^sup>m\<^sup>i\<^sup>n\<close> the spacing is that of the subnormal numbers); a tie goes to the even
  multiple; a result of magnitude \<open>2\<^sup>e\<^sup>m\<^sup>a\<^sup>x\<^sup>+\<^sup>1\<close> or more is the infinity of its sign.
\<close>

definition pow2 :: "int \<Rightarrow> real" where
  "pow2 e = (if 0 \<le> e then 2 ^ nat e else 1 / 2 ^ nat (- e))"

definition round_even :: "real \<Rightarrow> int" where
  "round_even x =
     (let n = \<lfloor>x\<rfloor>; r = x - of_int n
      in if r < 1 / 2 then n else if 1 / 2 < r then n + 1 else if even n then n else n + 1)"

definition fl :: "nat \<Rightarrow> int \<Rightarrow> int \<Rightarrow> real \<Rightarrow> number" where
  "fl p emin emax x =
     (if x = 0 then Fin 0
      else let e = max \<lfloor>log 2 \<bar>x\<bar>\<rfloor> emin;
               q = pow2 (e - int p + 1);
               y = of_int (round_even (x / q)) * q
           in if pow2 (emax + 1) \<le> \<bar>y\<bar> then (if 0 < x then PosInf else NegInf) else Fin y)"

definition binary64 :: "real \<Rightarrow> number" where
  "binary64 = fl 53 (- 1022) 1023"

definition binary32 :: "real \<Rightarrow> number" where
  "binary32 = fl 24 (- 126) 127"

definition ieee :: arith where
  "ieee = \<lparr> dbl = binary64, sgl = binary32, log2_of = (\<lambda>a. binary64 (log 2 a)) \<rparr>"

subsection \<open>applyGuitarFrequencyFilter with roundings\<close>

function lowPassLoop_fp ::
  "arith \<Rightarrow> number \<Rightarrow> number list \<Rightarrow> number list \<Rightarrow> int \<Rightarrow> number list" where
  "lowPassLoop_fp ar alpha buffer filtered i =
     (if i < int (length buffer)
      then lowPassLoop_fp ar alpha buffer
             (f32_set ar filtered i
                (fadd ar (fmul ar alpha (arr_get filtered (i - 1)))
                         (fmul ar (fsub ar (Fin 1) alpha) (arr_get buffer i))))
             (i + 1)
      else filtered)"
  by pat_completeness auto
termination
  by (relation "measure (\<lambda>(ar, alpha, buffer, filtered, i). nat (int (length buffer) - i))") auto

function removeMeanLoop_fp :: "arith \<Rightarrow> number \<Rightarrow> number list \<Rightarrow> int \<Rightarrow> number list" where
  "removeMeanLoop_fp ar mean filtered i =
     (if i < int (length filtered)
      then removeMeanLoop_fp ar mean
             (f32_set ar filtered i (fsub ar (arr_get filtered i) mean)) (i + 1)
      else filtered)"
  by pat_completeness auto
termination
  by (relation "measure (\<lambda>(ar, mean, filtered, i). nat (int (length filtered) - i))")
    (auto simp: f32_set_def arr_set_def)

text \<open>\<^verbatim>\<open>xs.reduce((sum, val) => sum + val, 0)\<close>\<close>

definition reduce_sum_fp :: "arith \<Rightarrow> number list \<Rightarrow> number" where
  "reduce_sum_fp ar xs = foldl (\<lambda>sum val. fadd ar sum val) (Fin 0) xs"

definition applyGuitarFrequencyFilter_fp :: "arith \<Rightarrow> number list \<Rightarrow> number list" where
  "applyGuitarFrequencyFilter_fp ar buffer =
     (let filtered = new_Float32Array (length buffer);
          alpha = dbl ar 0.8;
          filtered = f32_set ar filtered 0 (arr_get buffer 0);
          filtered = lowPassLoop_fp ar alpha buffer filtered 1;
          mean = fdiv ar (reduce_sum_fp ar filtered) (Fin (real (length filtered)))
      in removeMeanLoop_fp ar mean filtered 0)"

subsection \<open>autocorrelate with roundings\<close>

function centerLoop_fp ::
  "arith \<Rightarrow> number list \<Rightarrow> number \<Rightarrow> number list \<Rightarrow> int \<Rightarrow> number list" where
  "centerLoop_fp ar buffer mean centeredBuffer i =
     (if i < int (length buffer)
      then centerLoop_fp ar buffer mean
             (f32_set ar centeredBuffer i (fsub ar (arr_get buffer i) mean)) (i + 1)
      else centeredBuffer)"
  by pat_completeness auto
termination
  by (relation "measure (\<lambda>(ar, buffer, mean, centeredBuffer, i). nat (int (length buffer) - i))")
    auto

function sumSquaresLoop_fp :: "arith \<Rightarrow> number list \<Rightarrow> int \<Rightarrow> number \<Rightarrow> int \<Rightarrow> number" where
  "sumSquaresLoop_fp ar centeredBuffer bufferLength sumSquares i =
     (if i < bufferLength
      then sumSquaresLoop_fp ar centeredBuffer bufferLength
             (fadd ar sumSquares (fmul ar (arr_get centeredBuffer i) (arr_get centeredBuffer i)))
             (i + 1)
      else sumSquares)"
  by pat_completeness auto
termination
  by (relation "measure (\<lambda>(ar, centeredBuffer, bufferLength, sumSquares, i).
                  nat (bufferLength - i))")
    auto

function lagSumLoop_fp ::
  "arith \<Rightarrow> number list \<Rightarrow> int \<Rightarrow> int \<Rightarrow> number \<Rightarrow> int \<Rightarrow> number" where
  "lagSumLoop_fp ar centeredBuffer lag samplesUsed lagSum i =
     (if i < samplesUsed
      then lagSumLoop_fp ar centeredBuffer lag samplesUsed
             (fadd ar lagSum
                (fmul ar (arr_get centeredBuffer i) (arr_get centeredBuffer (i + lag))))
             (i + 1)
      else lagSum)"
  by pat_completeness auto
termination
  by (relation "measure (\<lambda>(ar, centeredBuffer, lag, samplesUsed, lagSum, i).
                  nat (samplesUsed - i))")
    auto

function lagLoop_fp ::
  "arith \<Rightarrow> number list \<Rightarrow> int \<Rightarrow> number \<Rightarrow> number list \<Rightarrow> int \<Rightarrow> number list" where
  "lagLoop_fp ar centeredBuffer bufferLength sumSquares correlations lag =
     (if lag < int (length correlations)
      then (let samplesUsed = bufferLength - lag;
                lagSum = lagSumLoop_fp ar centeredBuffer lag samplesUsed (Fin 0) 0
            in lagLoop_fp ar centeredBuffer bufferLength sumSquares
                 (f32_set ar correlations lag (fdiv ar lagSum sumSquares)) (lag + 1))
      else correlations)"
  by pat_completeness auto
termination
  by (relation "measure (\<lambda>(ar, centeredBuffer, bufferLength, sumSquares, correlations, lag).
                  nat (int (length correlations) - lag))")
    (auto simp: f32_set_def arr_set_def)

definition autocorrelate_fp :: "arith \<Rightarrow> number list \<Rightarrow> number list" where
  "autocorrelate_fp ar buffer =
     (let bufferLength = int (length buffer);
          correlations = new_Float32Array (nat \<lfloor>real_of_int bufferLength / 2\<rfloor>);
          mean = fdiv ar (reduce_sum_fp ar buffer) (Fin (real_of_int bufferLength));
          centeredBuffer = new_Float32Array (nat bufferLength);
          centeredBuffer = centerLoop_fp ar buffer mean centeredBuffer 0;
          sumSquares = sumSquaresLoop_fp ar centeredBuffer bufferLength (Fin 0) 0
      in if strict_eq sumSquares (Fin 0) then correlations
         else lagLoop_fp ar centeredBuffer bufferLength sumSquares correlations 0)"

subsection \<open>parabolicInterpolation with roundings\<close>

definition parabolicInterpolation_fp ::
  "arith \<Rightarrow> PitchDetector \<Rightarrow> number list \<Rightarrow> int \<Rightarrow> number" where
  "parabolicInterpolation_fp ar this correlations peakIndex =
     (if peakIndex \<le> 0 \<or> peakIndex \<ge> int (length correlations) - 1
      then fdiv ar (Fin (this_sampleRate this)) (Fin (real_of_int peakIndex))
      else (let y1 = arr_get correlations (peakIndex - 1);
                y2 = arr_get correlations peakIndex;
                y3 = arr_get correlations (peakIndex + 1);
                a = fdiv ar (fadd ar (fsub ar y1 (fmul ar (Fin 2) y2)) y3) (Fin 2);
                b = fdiv ar (fsub ar y3 y1) (Fin 2)
            in if strict_eq a (Fin 0)
               then fdiv ar (Fin (this_sampleRate this)) (Fin (real_of_int peakIndex))
               else (let xOffset = fdiv ar (- b) (fmul ar (Fin 2) a);
                         interpolatedPeriod = fadd ar (Fin (real_of_int peakIndex)) xOffset
                     in fdiv ar (Fin (this_sampleRate this)) interpolatedPeriod)))"

subsection \<open>TunerEngine with roundings\<close>

fun Math_log2_fp :: "arith \<Rightarrow> number \<Rightarrow> number" where
  "Math_log2_fp ar (Fin a) = (if 0 < a then log2_of ar a else if a = 0 then NegInf else NaN)"
| "Math_log2_fp ar PosInf = PosInf"
| "Math_log2_fp ar NegInf = NaN"
| "Math_log2_fp ar NaN = NaN"

text \<open>
  The table holds the doubles of its decimal literals. The constructor sorts the entries by
  these doubles; the literals are written in ascending order and far apart, so that the
  order of the entries is the order in which they are written.
\<close>

definition guitarNotes_fp :: "arith \<Rightarrow> (string \<times> number) list" where
  "guitarNotes_fp ar = map (\<lambda>noteData. (fst noteData, dbl ar (snd noteData))) guitarNotes"

definition tuningOf_fp :: "arith \<Rightarrow> string \<Rightarrow> number" where
  "tuningOf_fp ar name = (case map_of GUITAR_TUNING name of Some f \<Rightarrow> dbl ar f | None \<Rightarrow> NaN)"

fun closestLoop_fp ::
  "arith \<Rightarrow> number \<Rightarrow> (string \<times> number) list \<Rightarrow> (string \<times> number) \<times> number \<Rightarrow>
     (string \<times> number) \<times> number" where
  "closestLoop_fp ar freq [] (closestNote, minDifference) = (closestNote, minDifference)"
| "closestLoop_fp ar freq (noteData # rest) (closestNote, minDifference) =
     (let difference = \<bar>fsub ar freq (snd noteData)\<bar>
      in if difference < minDifference
         then closestLoop_fp ar freq rest (noteData, difference)
         else closestLoop_fp ar freq rest (closestNote, minDifference))"

definition getClosestGuitarNote_fp :: "arith \<Rightarrow> number \<Rightarrow> string" where
  "getClosestGuitarNote_fp ar freq =
     (let closestNote = hd (guitarNotes_fp ar);
          minDifference = \<bar>fsub ar freq (snd closestNote)\<bar>
      in fst (fst (closestLoop_fp ar freq (guitarNotes_fp ar) (closestNote, minDifference))))"

definition calculateCentsDifference_fp :: "arith \<Rightarrow> number \<Rightarrow> number \<Rightarrow> number" where
  "calculateCentsDifference_fp ar freq targetFrequency =
     Math_round (fmul ar (Fin 1200) (Math_log2_fp ar (fdiv ar freq targetFrequency)))"

definition analyzeNote_fp :: "arith \<Rightarrow> number \<Rightarrow> number \<Rightarrow> NoteData" where
  "analyzeNote_fp ar freq conf =
     (let closestNote = getClosestGuitarNote_fp ar freq;
          targetFrequency = tuningOf_fp ar closestNote;
          cents = calculateCentsDifference_fp ar freq targetFrequency;
          isInTune = (\<bar>cents\<bar> \<le> Fin TUNING_TOLERANCE_CENTS)
      in \<lparr> frequency = freq, noteName = closestNote, cents = cents,
           isInTune = isInTune, confidence = conf \<rparr>)"

subsection \<open>The filter and the autocorrelation as formulas, with roundings\<close>

text \<open>
  The low-pass \<open>y[0] = x[0]\<close>, \<open>y[i] = \<alpha> \<sqdot> y[i-1] + (1 - \<alpha>) \<sqdot> x[i]\<close> with \<open>\<alpha>\<close> the double of
  0.8, each sample stored as a single; then the mean of \<open>y\<close>, summed from the left,
  subtracted from every sample.
\<close>

fun lowpass_fp :: "arith \<Rightarrow> number list \<Rightarrow> nat \<Rightarrow> number" where
  "lowpass_fp ar x 0 = rnd (sgl ar) (x ! 0)"
| "lowpass_fp ar x (Suc i) =
     rnd (sgl ar)
       (fadd ar (fmul ar (dbl ar 0.8) (lowpass_fp ar x i))
                (fmul ar (fsub ar (Fin 1) (dbl ar 0.8)) (x ! Suc i)))"

definition spec_filter_fp :: "arith \<Rightarrow> number list \<Rightarrow> number list" where
  "spec_filter_fp ar x =
     (let y = map (lowpass_fp ar x) [0..<length x];
          mean = fdiv ar (foldl (fadd ar) (Fin 0) y) (Fin (real (length y)))
      in map (\<lambda>v. rnd (sgl ar) (fsub ar v mean)) y)"

text \<open>
  The mean-centred samples stored as singles, their sum of squares, and for a lag \<open>L\<close> the
  sum of \<open>centered[i] \<sqdot> centered[i+L]\<close> for \<open>i\<close> from 0 to \<open>N-L-1\<close>, each sum taken from
  the left in doubles.
\<close>

definition mean_fp :: "arith \<Rightarrow> number list \<Rightarrow> number" where
  "mean_fp ar xs = fdiv ar (foldl (fadd ar) (Fin 0) xs) (Fin (real (length xs)))"

definition centered_fp :: "arith \<Rightarrow> number list \<Rightarrow> number list" where
  "centered_fp ar xs = map (\<lambda>v. rnd (sgl ar) (fsub ar v (mean_fp ar xs))) xs"


definition lagProducts_fp :: "arith \<Rightarrow> number list \<Rightarrow> nat \<Rightarrow> number" where
  "lagProducts_fp ar xs L =
     foldl (\<lambda>s i. fadd ar s (fmul ar (centered_fp ar xs ! i) (centered_fp ar xs ! (i + L))))
       (Fin 0) [0..<length xs - L]"


section \<open>Arithmetic on finite numbers\<close>

text \<open>The loops are unfolded one iteration at a time, by hand.\<close>

declare lowPassLoop.simps [simp del] removeMeanLoop.simps [simp del]
  centerLoop.simps [simp del] sumSquaresLoop.simps [simp del] lagSumLoop.simps [simp del]
  lagLoop.simps [simp del] harmonicLoop.simps [simp del] scanLoop.simps [simp del]
  scanLoop_checked.simps [simp del] harmonicLoop_checked.simps [simp del]

declare lowPassLoop_fp.simps [simp del] removeMeanLoop_fp.simps [simp del]
  centerLoop_fp.simps [simp del] sumSquaresLoop_fp.simps [simp del]
  lagSumLoop_fp.simps [simp del] lagLoop_fp.simps [simp del]

declare zero_number_def [simp] one_number_def [simp]

lemma Math_min_Fin [simp]: "Math_min (Fin a) (Fin b) = Fin (min a b)"
  by (simp add: Math_min_def min_def)

lemma number_less_trans: "x < y \<Longrightarrow> y < z \<Longrightarrow> x < (z::number)"
  by (cases x; cases y; cases z) auto

lemma number_less_not_NaN: "x < y \<Longrightarrow> x \<noteq> NaN \<and> y \<noteq> (NaN::number)"
  by (cases x; cases y) auto

lemma number_not_less: "x \<noteq> NaN \<Longrightarrow> y \<noteq> NaN \<Longrightarrow> \<not> x < y \<Longrightarrow> y \<le> (x::number)"
  by (cases x; cases y) (auto simp: less_eq_number_def)

lemma number_le_less_trans: "x \<le> y \<Longrightarrow> y < z \<Longrightarrow> x < (z::number)"
  by (cases x; cases y; cases z) (auto simp: less_eq_number_def)

lemma number_less_le: "x < y \<Longrightarrow> x \<le> (y::number)"
  by (simp add: less_eq_number_def)

lemma number_le_refl: "x \<noteq> NaN \<Longrightarrow> x \<le> (x::number)"
  by (simp add: less_eq_number_def)

lemma number_le_not_less: "x \<le> y \<Longrightarrow> \<not> y < (x::number)"
  by (cases x; cases y) (auto simp: less_eq_number_def)

lemma isLocalMax_not_NaN: "isLocalMax cs L \<Longrightarrow> arr_get cs L \<noteq> NaN"
  unfolding isLocalMax_def using number_less_not_NaN by blast

section \<open>Typed arrays and sums\<close>

lemma length_arr_set [simp]: "length (arr_set xs i v) = length xs"
  by (simp add: arr_set_def)

lemma arr_set_nat: "k < length xs \<Longrightarrow> arr_set xs (int k) v = xs[k := v]"
  by (simp add: arr_set_def)

lemma arr_get_nat: "k < length xs \<Longrightarrow> arr_get xs (int k) = xs ! k"
  by (simp add: arr_get_def)

lemma arr_get_map_Fin:
  "0 \<le> i \<Longrightarrow> i < int (length ys) \<Longrightarrow> arr_get (map Fin ys) i = Fin (ys ! nat i)"
  by (simp add: arr_get_def)

lemma length_new_Float32Array [simp]: "length (new_Float32Array n) = n"
  by (simp add: new_Float32Array_def)

lemma foldl_plus_Fin: "foldl (\<lambda>sum val. sum + val) (Fin a) (map Fin ys) = Fin (a + sum_list ys)"
  by (induction ys arbitrary: a) (simp_all add: add.assoc)

lemma reduce_sum_Fin: "reduce_sum (map Fin ys) = Fin (sum_list ys)"
  by (simp add: reduce_sum_def foldl_plus_Fin)

lemma Fin_minus [simp]: "Fin a - Fin b = Fin (a - b)"
  by (simp add: minus_number_def)

lemma Fin_le [simp]: "Fin a \<le> Fin b \<longleftrightarrow> a \<le> b"
  by (auto simp: less_eq_number_def)

section \<open>The preprocessing filter\<close>

lemma lowPassLoop_spec:
  assumes "length filtered = length x" "1 \<le> k" "k \<le> length x"
    and "\<forall>j<k. filtered ! j = Fin (lowpass x j)"
  shows "lowPassLoop (Fin 0.8) (map Fin x) filtered (int k) = map (\<lambda>j. Fin (lowpass x j)) [0..<length x]"
  using assms
proof (induction "length x - k" arbitrary: k filtered)
  case 0
  then have k: "k = length x" by simp
  have "lowPassLoop (Fin 0.8) (map Fin x) filtered (int k) = filtered"
    by (subst lowPassLoop.simps) (simp add: k)
  moreover have "filtered = map (\<lambda>j. Fin (lowpass x j)) [0..<length x]"
    using 0 k by (intro nth_equalityI) simp_all
  ultimately show ?case by simp
next
  case (Suc d)
  then have lt: "k < length x" by simp
  obtain k' where k': "k = Suc k'"
    using Suc.prems(2) by (cases k) simp_all
  let ?v = "Fin 0.8 * arr_get filtered (int k - 1) + (1 - Fin 0.8) * arr_get (map Fin x) (int k)"
  have prev: "arr_get filtered (int k - 1) = Fin (lowpass x k')"
    using Suc.prems lt k' arr_get_nat [of k' filtered] by simp
  have cur: "arr_get (map Fin x) (int k) = Fin (x ! k)"
    using lt by (simp add: arr_get_nat)
  have v: "?v = Fin (lowpass x k)"
    unfolding prev cur by (simp add: k')
  have step: "lowPassLoop (Fin 0.8) (map Fin x) filtered (int k) =
              lowPassLoop (Fin 0.8) (map Fin x) (filtered[k := Fin (lowpass x k)]) (int (Suc k))"
    using lt Suc.prems(1) v
    by (subst lowPassLoop.simps) (simp add: arr_set_nat add.commute)
  have "lowPassLoop (Fin 0.8) (map Fin x) (filtered[k := Fin (lowpass x k)]) (int (Suc k)) =
        map (\<lambda>j. Fin (lowpass x j)) [0..<length x]"
  proof (rule Suc.hyps(1))
    show "d = length x - Suc k" using Suc.hyps(2) by simp
    show "length (filtered[k := Fin (lowpass x k)]) = length x" using Suc.prems(1) by simp
    show "1 \<le> Suc k" by simp
    show "Suc k \<le> length x" using lt by simp
    show "\<forall>j<Suc k. filtered[k := Fin (lowpass x k)] ! j = Fin (lowpass x j)"
      using Suc.prems(1,4) lt by (auto simp: nth_list_update less_Suc_eq)
  qed
  with step show ?case by simp
qed

lemma removeMeanLoop_map:
  "k \<le> length filtered \<Longrightarrow>
     removeMeanLoop mean filtered (int k) =
       take k filtered @ map (\<lambda>v. v - mean) (drop k filtered)"
proof (induction "length filtered - k" arbitrary: k filtered)
  case 0
  then show ?case by (subst removeMeanLoop.simps) simp
next
  case (Suc d)
  then have lt: "k < length filtered" by simp
  have step: "removeMeanLoop mean filtered (int k) =
              removeMeanLoop mean (filtered[k := filtered ! k - mean]) (int (Suc k))"
    using lt by (subst removeMeanLoop.simps) (simp add: arr_set_nat arr_get_nat add.commute)
  have "removeMeanLoop mean (filtered[k := filtered ! k - mean]) (int (Suc k)) =
        take (Suc k) (filtered[k := filtered ! k - mean]) @
        map (\<lambda>v. v - mean) (drop (Suc k) (filtered[k := filtered ! k - mean]))"
    using Suc.hyps(2) lt by (intro Suc.hyps(1)) simp_all
  also have "\<dots> = take k filtered @ map (\<lambda>v. v - mean) (drop k filtered)"
    using lt by (simp add: take_Suc_conv_app_nth Cons_nth_drop_Suc [symmetric])
  finally show ?case using step by simp
qed

lemma length_lowPassLoop [simp]:
  "length (lowPassLoop alpha buffer filtered i) = length filtered"
  by (induction alpha buffer filtered i rule: lowPassLoop.induct)
    (subst lowPassLoop.simps, simp)

lemma length_removeMeanLoop [simp]:
  "length (removeMeanLoop mean filtered i) = length filtered"
  by (induction mean filtered i rule: removeMeanLoop.induct)
    (subst removeMeanLoop.simps, simp)

lemma applyGuitarFrequencyFilter_length:
  "length (applyGuitarFrequencyFilter buffer) = length buffer"
  by (simp add: applyGuitarFrequencyFilter_def Let_def)

lemma applyGuitarFrequencyFilter_Fin:
  "applyGuitarFrequencyFilter (map Fin x) = map Fin (spec_filter x)"
proof (cases x)
  case Nil
  then show ?thesis
    by (simp add: applyGuitarFrequencyFilter_def spec_filter_def new_Float32Array_def arr_set_def
        Let_def lowPassLoop.simps removeMeanLoop.simps)
next
  case (Cons a as)
  let ?n = "length x"
  let ?y = "map (\<lambda>j. Fin (lowpass x j)) [0..<?n]"
  have pos: "0 < ?n" using Cons by simp
  have init: "arr_set (new_Float32Array ?n) 0 (arr_get (map Fin x) 0) = (replicate ?n (Fin 0))[0 := Fin (x ! 0)]"
    using pos arr_set_nat [of 0 "new_Float32Array ?n"] arr_get_nat [of 0 "map Fin x"]
    by (simp add: new_Float32Array_def)
  have lp: "lowPassLoop (Fin 0.8) (map Fin x) ((replicate ?n (Fin 0))[0 := Fin (x ! 0)]) (int 1) = ?y"
    using pos by (intro lowPassLoop_spec) (simp_all add: Suc_le_eq)
  have y: "?y = map Fin (map (lowpass x) [0..<?n])"
    by simp
  have mean: "reduce_sum ?y / Fin (real (length ?y)) = Fin (sum_list (map (lowpass x) [0..<?n]) / real ?n)"
    using pos unfolding y reduce_sum_Fin by simp
  have rm: "removeMeanLoop m ?y (int 0) = map (\<lambda>v. v - m) ?y" for m
    by (subst removeMeanLoop_map) simp_all
  show ?thesis
    using lp init mean rm
    by (simp add: applyGuitarFrequencyFilter_def spec_filter_def Let_def o_def)
qed

section \<open>The autocorrelation\<close>

lemma centerLoop_map:
  "length centeredBuffer = length buffer \<Longrightarrow> k \<le> length buffer \<Longrightarrow>
     centerLoop buffer mean centeredBuffer (int k) =
       take k centeredBuffer @ map (\<lambda>v. v - mean) (drop k buffer)"
proof (induction "length buffer - k" arbitrary: k centeredBuffer)
  case 0
  then show ?case by (subst centerLoop.simps) simp
next
  case (Suc d)
  then have lt: "k < length buffer" by simp
  let ?c = "centeredBuffer[k := buffer ! k - mean]"
  have step: "centerLoop buffer mean centeredBuffer (int k) =
              centerLoop buffer mean ?c (int (Suc k))"
    using lt Suc.prems(1)
    by (subst centerLoop.simps) (simp add: arr_set_nat arr_get_nat add.commute)
  have "centerLoop buffer mean ?c (int (Suc k)) =
        take (Suc k) ?c @ map (\<lambda>v. v - mean) (drop (Suc k) buffer)"
    using Suc.hyps(2) Suc.prems(1) lt by (intro Suc.hyps(1)) simp_all
  also have "\<dots> = take k centeredBuffer @ map (\<lambda>v. v - mean) (drop k buffer)"
    using lt Suc.prems(1)
    by (simp add: take_Suc_conv_app_nth Cons_nth_drop_Suc [symmetric])
  finally show ?case using step by simp
qed

lemma sumSquaresLoop_sum:
  "k \<le> length c \<Longrightarrow>
     sumSquaresLoop (map Fin c) (int (length c)) (Fin a) (int k) =
       Fin (a + (\<Sum>i = k..<length c. c ! i * c ! i))"
proof (induction "length c - k" arbitrary: k a)
  case 0
  then show ?case by (subst sumSquaresLoop.simps) simp
next
  case (Suc d)
  then have lt: "k < length c" by simp
  have step: "sumSquaresLoop (map Fin c) (int (length c)) (Fin a) (int k) =
              sumSquaresLoop (map Fin c) (int (length c)) (Fin (a + c ! k * c ! k)) (int (Suc k))"
    using lt by (subst sumSquaresLoop.simps) (simp add: arr_get_nat add.commute)
  have "sumSquaresLoop (map Fin c) (int (length c)) (Fin (a + c ! k * c ! k)) (int (Suc k)) =
        Fin (a + c ! k * c ! k + (\<Sum>i = Suc k..<length c. c ! i * c ! i))"
    using Suc.hyps(2) lt by (intro Suc.hyps(1)) simp_all
  also have "\<dots> = Fin (a + (\<Sum>i = k..<length c. c ! i * c ! i))"
    using lt by (simp add: sum.atLeast_Suc_lessThan add.assoc)
  finally show ?case using step by simp
qed

lemma lagSumLoop_sum:
  "k \<le> m \<Longrightarrow> m + L \<le> length c \<Longrightarrow>
     lagSumLoop (map Fin c) (int L) (int m) (Fin a) (int k) =
       Fin (a + (\<Sum>i = k..<m. c ! i * c ! (i + L)))"
proof (induction "m - k" arbitrary: k a)
  case 0
  then show ?case by (subst lagSumLoop.simps) simp
next
  case (Suc d)
  then have lt: "k < m" by simp
  have r1: "arr_get (map Fin c) (int k) = Fin (c ! k)"
    using lt Suc.prems(2) by (simp add: arr_get_nat)
  have r2: "arr_get (map Fin c) (int k + int L) = Fin (c ! (k + L))"
    using lt Suc.prems(2) arr_get_nat [of "k + L" "map Fin c"] by simp
  have suc: "int k + 1 = int (Suc k)" by simp
  have step: "lagSumLoop (map Fin c) (int L) (int m) (Fin a) (int k) =
              lagSumLoop (map Fin c) (int L) (int m) (Fin (a + c ! k * c ! (k + L))) (int (Suc k))"
    using lt by (subst lagSumLoop.simps) (simp only: r1 r2 suc of_nat_less_iff if_True plus_number.simps times_number.simps)
  have "lagSumLoop (map Fin c) (int L) (int m) (Fin (a + c ! k * c ! (k + L))) (int (Suc k)) =
        Fin (a + c ! k * c ! (k + L) + (\<Sum>i = Suc k..<m. c ! i * c ! (i + L)))"
    using Suc.hyps(2) Suc.prems(2) lt by (intro Suc.hyps(1)) simp_all
  also have "\<dots> = Fin (a + (\<Sum>i = k..<m. c ! i * c ! (i + L)))"
    using lt by (simp add: sum.atLeast_Suc_lessThan add.assoc)
  finally show ?case using step by simp
qed

lemma lagLoop_map:
  assumes "s \<noteq> 0" "length correlations \<le> length c" "k \<le> length correlations"
  shows "lagLoop (map Fin c) (int (length c)) (Fin s) correlations (int k) =
           take k correlations @
           map (\<lambda>L. Fin ((\<Sum>i = 0..<length c - L. c ! i * c ! (i + L)) / s))
             [k..<length correlations]"
  using assms(2,3)
proof (induction "length correlations - k" arbitrary: k correlations)
  case 0
  then show ?case by (subst lagLoop.simps) simp
next
  case (Suc d)
  then have lt: "k < length correlations" by simp
  let ?v = "Fin ((\<Sum>i = 0..<length c - k. c ! i * c ! (i + k)) / s)"
  have used: "int (length c) - int k = int (length c - k)"
    using lt Suc.prems(1) by simp
  have "lagSumLoop (map Fin c) (int k) (int (length c - k)) (Fin 0) (int 0) =
        Fin (0 + (\<Sum>i = 0..<length c - k. c ! i * c ! (i + k)))"
    using lt Suc.prems(1) by (intro lagSumLoop_sum) simp_all
  then have inner:
    "lagSumLoop (map Fin c) (int k) (int (length c) - int k) (Fin 0) 0 / Fin s = ?v"
    unfolding used using assms(1) by simp
  have suc: "int k + 1 = int (Suc k)" by simp
  have "lagLoop (map Fin c) (int (length c)) (Fin s) correlations (int k) =
        lagLoop (map Fin c) (int (length c)) (Fin s)
          (arr_set correlations (int k)
             (lagSumLoop (map Fin c) (int k) (int (length c) - int k) (Fin 0) 0 / Fin s))
          (int k + 1)"
    using lt by (subst lagLoop.simps) (simp add: Let_def)
  then have step: "lagLoop (map Fin c) (int (length c)) (Fin s) correlations (int k) =
              lagLoop (map Fin c) (int (length c)) (Fin s) (correlations[k := ?v]) (int (Suc k))"
    unfolding inner suc using lt by (simp only: arr_set_nat)
  have "lagLoop (map Fin c) (int (length c)) (Fin s) (correlations[k := ?v]) (int (Suc k)) =
        take (Suc k) (correlations[k := ?v]) @
        map (\<lambda>L. Fin ((\<Sum>i = 0..<length c - L. c ! i * c ! (i + L)) / s))
          [Suc k..<length (correlations[k := ?v])]"
    using Suc.hyps(2) Suc.prems(1) lt by (intro Suc.hyps(1)) simp_all
  also have "\<dots> = take k correlations @
        map (\<lambda>L. Fin ((\<Sum>i = 0..<length c - L. c ! i * c ! (i + L)) / s))
          [k..<length correlations]"
    using lt by (simp add: take_Suc_conv_app_nth upt_conv_Cons)
  finally show ?case using step by simp
qed

lemma floor_half: "nat \<lfloor>real_of_int (int n) / 2\<rfloor> = n div 2"
proof -
  have "\<lfloor>real_of_int (int n) / 2\<rfloor> = int n div 2"
    using floor_divide_of_int_eq [of "int n" 2, where ?'a = real] by simp
  then show ?thesis by (simp add: nat_div_distrib)
qed

lemma autocorrelate_unfold:
  "autocorrelate buffer =
     (if strict_eq
           (sumSquaresLoop
              (centerLoop buffer (reduce_sum buffer / Fin (real (length buffer)))
                 (new_Float32Array (length buffer)) 0)
              (int (length buffer)) (Fin 0) 0) (Fin 0)
      then new_Float32Array (length buffer div 2)
      else lagLoop
             (centerLoop buffer (reduce_sum buffer / Fin (real (length buffer)))
                (new_Float32Array (length buffer)) 0)
             (int (length buffer))
             (sumSquaresLoop
                (centerLoop buffer (reduce_sum buffer / Fin (real (length buffer)))
                   (new_Float32Array (length buffer)) 0)
                (int (length buffer)) (Fin 0) 0)
             (new_Float32Array (length buffer div 2)) 0)"
  unfolding autocorrelate_def Let_def floor_half by simp

lemma centerLoop_from_0:
  "centerLoop buffer mean (new_Float32Array (length buffer)) 0 = map (\<lambda>v. v - mean) buffer"
  using centerLoop_map [of "new_Float32Array (length buffer)" buffer 0 mean] by simp

lemma mean_Fin:
  "xs \<noteq> [] \<Longrightarrow>
     reduce_sum (map Fin xs) / Fin (real (length xs)) = Fin (sum_list xs / real (length xs))"
  unfolding reduce_sum_Fin by simp

lemma centered_buffer:
  "centerLoop (map Fin xs) (reduce_sum (map Fin xs) / Fin (real (length (map Fin xs))))
     (new_Float32Array (length (map Fin xs))) 0 = map Fin (centered xs)"
proof -
  have c: "centerLoop (map Fin xs) m (new_Float32Array (length xs)) 0 =
           map (\<lambda>v. v - m) (map Fin xs)" for m
    using centerLoop_from_0 [of "map Fin xs" m] by simp
  show ?thesis
  proof (cases "xs = []")
    case True
    then show ?thesis using c [of "reduce_sum [] / Fin 0"] by (simp add: centered_def)
  next
    case False
    then show ?thesis by (simp add: c mean_Fin centered_def)
  qed
qed

lemma length_centered [simp]: "length (centered xs) = length xs"
  by (simp add: centered_def)

lemma sumSquares_Fin:
  "sumSquaresLoop (map Fin (centered xs)) (int (length (map Fin xs))) (Fin 0) 0 =
     Fin (sumSquares_of xs)"
  using sumSquaresLoop_sum [of 0 "centered xs" 0] by (simp add: sumSquares_of_def)

lemma lagLoop_Fin:
  assumes "sumSquares_of xs \<noteq> 0"
  shows "lagLoop (map Fin (centered xs)) (int (length (map Fin xs))) (Fin (sumSquares_of xs))
           (new_Float32Array (length (map Fin xs) div 2)) 0 =
         map (\<lambda>L. Fin (lagProducts xs L / sumSquares_of xs)) [0..<length xs div 2]"
  using lagLoop_map [OF assms, of "new_Float32Array (length xs div 2)" "centered xs" 0]
  by (simp add: lagProducts_def)

lemma autocorrelate_Fin:
  "autocorrelate (map Fin xs) =
     (if sumSquares_of xs = 0 then replicate (length xs div 2) (Fin 0)
      else map (\<lambda>L. Fin (lagProducts xs L / sumSquares_of xs)) [0..<length xs div 2])"
proof (cases "sumSquares_of xs = 0")
  case True
  then show ?thesis
    unfolding autocorrelate_unfold [of "map Fin xs"] centered_buffer sumSquares_Fin
    by (simp add: strict_eq_def new_Float32Array_def)
next
  case False
  then show ?thesis
    unfolding autocorrelate_unfold [of "map Fin xs"] centered_buffer sumSquares_Fin
      lagLoop_Fin [OF False]
    by (simp add: strict_eq_def)
qed

section \<open>Peak selection\<close>

lemma scanned_step_no: "\<not> isLocalMax cs p \<Longrightarrow> scanned cs lo (p + 1) = scanned cs lo p"
proof -
  assume n: "\<not> isLocalMax cs p"
  have "L < p + 1 \<and> isLocalMax cs L \<longleftrightarrow> L < p \<and> isLocalMax cs L" for L
    using n by (cases "L = p") auto
  then show ?thesis unfolding scanned_def by blast
qed

lemma scanned_step_yes:
  "isLocalMax cs p \<Longrightarrow> lo \<le> p \<Longrightarrow> scanned cs lo (p + 1) = insert p (scanned cs lo p)"
  unfolding scanned_def by auto

lemma scanned_not_NaN: "L \<in> scanned cs lo p \<Longrightarrow> arr_get cs L \<noteq> NaN"
  unfolding scanned_def using isLocalMax_not_NaN by blast

lemma scanned_mono: "L \<in> scanned cs lo q \<Longrightarrow> q \<le> p \<Longrightarrow> L \<in> scanned cs lo p"
  unfolding scanned_def by auto

lemma scanStep_inv:
  assumes "scanInv cs lo p st" "lo \<le> p"
  shows "scanInv cs lo (p + 1) (scanStep cs p st)"
proof -
  obtain mc bp sb where st: "st = (mc, bp, sb)" by (cases st) auto
  from assms(1) have inv:
    "(bp = 0 \<and> mc = Fin 0 \<and> (\<forall>L \<in> scanned cs lo p. \<not> arr_get cs L > Fin 0)) \<or>
     (bp \<in> scanned cs lo p \<and> mc = arr_get cs bp \<and> mc > Fin 0 \<and>
        (\<forall>L \<in> scanned cs lo p. arr_get cs L \<le> mc) \<and>
        (\<forall>L \<in> scanned cs lo bp. arr_get cs L < mc))"
    unfolding scanInv_def st by simp
  show ?thesis
  proof (cases "isLocalMax cs p")
    case False
    then have "scanStep cs p st = st"
      by (auto simp: scanStep_def st isLocalMax_def Let_def)
    then show ?thesis
      using inv unfolding scanInv_def st scanned_step_no [OF False] by simp
  next
    case True
    note lm = True
    note sc = scanned_step_yes [OF lm assms(2)]
    have nn: "arr_get cs p \<noteq> NaN" using lm by (rule isLocalMax_not_NaN)
    show ?thesis
    proof (cases "arr_get cs p > mc")
      case True
      then have step: "scanStep cs p st = (arr_get cs p, p, mc)"
        using lm by (simp add: scanStep_def st isLocalMax_def Let_def)
      from inv True have pos: "arr_get cs p > Fin 0"
        by (auto intro: number_less_trans)
      have lt: "arr_get cs L < arr_get cs p" if "L \<in> scanned cs lo p" for L
      proof -
        from inv that have "\<not> arr_get cs L > Fin 0 \<or> arr_get cs L \<le> mc"
          by auto
        then show ?thesis
        proof
          assume "\<not> arr_get cs L > Fin 0"
          then have "arr_get cs L \<le> Fin 0"
            using scanned_not_NaN [OF that] by (intro number_not_less) simp_all
          then show ?thesis using pos by (rule number_le_less_trans)
        next
          assume "arr_get cs L \<le> mc"
          then show ?thesis using True by (rule number_le_less_trans)
        qed
      qed
      have le: "arr_get cs L \<le> arr_get cs p" if "L \<in> scanned cs lo (p + 1)" for L
        using that nn lt unfolding sc by (auto intro: number_less_le number_le_refl)
      have "p \<in> scanned cs lo (p + 1)"
        unfolding sc by simp
      then show ?thesis
        unfolding step scanInv_def using pos le lt by simp
    next
      case False
      then have "\<exists>sb'. scanStep cs p st = (mc, bp, sb')"
        using lm by (simp add: scanStep_def st isLocalMax_def Let_def)
      then obtain sb' where step: "scanStep cs p st = (mc, bp, sb')"
        by blast
      from inv have "mc \<noteq> NaN"
        using number_less_not_NaN by auto
      with nn False have le: "arr_get cs p \<le> mc"
        by (intro number_not_less) simp_all
      from inv show ?thesis
      proof
        assume a: "bp = 0 \<and> mc = Fin 0 \<and> (\<forall>L \<in> scanned cs lo p. \<not> arr_get cs L > Fin 0)"
        then have "\<forall>L \<in> scanned cs lo (p + 1). \<not> arr_get cs L > Fin 0"
          unfolding sc using False by auto
        with a show ?thesis unfolding step scanInv_def by simp
      next
        assume b: "bp \<in> scanned cs lo p \<and> mc = arr_get cs bp \<and> mc > Fin 0 \<and>
          (\<forall>L \<in> scanned cs lo p. arr_get cs L \<le> mc) \<and>
          (\<forall>L \<in> scanned cs lo bp. arr_get cs L < mc)"
        then have "\<forall>L \<in> scanned cs lo (p + 1). arr_get cs L \<le> mc"
          unfolding sc using le by auto
        moreover have "bp \<in> scanned cs lo (p + 1)"
          using b unfolding sc by simp
        ultimately show ?thesis using b unfolding step scanInv_def by auto
      qed
    qed
  qed
qed

lemma scanLoop_inv:
  "scanInv cs lo p st \<Longrightarrow> lo \<le> p \<Longrightarrow> p \<le> hi \<Longrightarrow> scanInv cs lo hi (scanLoop cs hi p st)"
proof (induction cs hi p st rule: scanLoop.induct)
  case (1 correlations bound period st)
  show ?case
  proof (cases "period < bound")
    case True
    have "scanInv correlations lo bound
            (scanLoop correlations bound (period + 1) (scanStep correlations period st))"
      using True "1.prems" by (intro "1.IH" scanStep_inv) simp_all
    then show ?thesis using True by (subst scanLoop.simps) simp
  next
    case False
    with "1.prems" have "period = bound" by simp
    then show ?thesis using "1.prems"(1) by (subst scanLoop.simps) simp
  qed
qed

lemma scanLoop_empty: "hi \<le> p \<Longrightarrow> scanLoop cs hi p st = st"
  by (subst scanLoop.simps) simp

lemma findPeak_inv:
  "scanInv cs (minPeriod this) (min (maxPeriod this) (int (length cs) - 1)) (findPeak this cs)"
proof (cases "minPeriod this \<le> min (maxPeriod this) (int (length cs) - 1)")
  case True
  have "scanInv cs (minPeriod this) (minPeriod this) (0, 0, 0)"
    by (auto simp: scanInv_def scanned_def)
  from scanLoop_inv [OF this _ True] show ?thesis
    by (simp add: findPeak_def)
next
  case False
  then have "min (maxPeriod this) (int (length cs) - 1) \<le> minPeriod this"
    by linarith
  then have "findPeak this cs = (0, 0, 0)"
    unfolding findPeak_def by (rule scanLoop_empty)
  with False show ?thesis
    by (auto simp: scanInv_def scanned_def)
qed




section \<open>Confidence scoring\<close>

lemma calculateConsistencyBonus_fraction:
  "calculateConsistencyBonus cs bestPeriod = Fin (harmonicFraction cs bestPeriod)"
  by (simp add: calculateConsistencyBonus_def harmonicLoop.simps Let_def harmonicFraction_def
      harmonicChecked_def harmonicConsistent_def floor_divide_of_int_eq [where ?'a = real, symmetric])

lemma harmonicFraction_range: "0 \<le> harmonicFraction cs bestPeriod \<and> harmonicFraction cs bestPeriod \<le> 1"
  by (simp add: harmonicFraction_def Let_def)




section \<open>The detector on hostile, silent and finite frames\<close>

lemma absorbed_plus: "\<not> isFinite x \<Longrightarrow> absorbed x s \<Longrightarrow> absorbed x (s + y)"
  by (cases x; cases s; cases y) (auto simp: absorbed_def)

lemma absorbed_plus_self: "\<not> isFinite x \<Longrightarrow> absorbed x (s + x)"
  by (cases x; cases s) (auto simp: absorbed_def)

lemma absorbed_foldl:
  "\<not> isFinite x \<Longrightarrow> absorbed x s \<or> x \<in> set xs \<Longrightarrow>
     absorbed x (foldl (\<lambda>sum val. sum + val) s xs)"
proof (induction xs arbitrary: s)
  case Nil
  then show ?case by simp
next
  case (Cons a xs)
  have "absorbed x (s + a) \<or> x \<in> set xs"
    using Cons.prems absorbed_plus [of x s a] absorbed_plus_self [of x s] by auto
  from Cons.IH [OF Cons.prems(1) this] show ?case by simp
qed

lemma absorbed_divide: "\<not> isFinite x \<Longrightarrow> absorbed x s \<Longrightarrow> 0 < n \<Longrightarrow> absorbed x (s / Fin n)"
  by (cases x; cases s) (auto simp: absorbed_def inf_of_sign_def)

lemma absorbed_minus: "\<not> isFinite x \<Longrightarrow> absorbed x s \<Longrightarrow> x - s = NaN"
  by (cases x; cases s) (auto simp: absorbed_def minus_number_def)

lemma mean_absorbs:
  assumes "x \<in> set xs" "\<not> isFinite x"
  shows "x - reduce_sum xs / Fin (real (length xs)) = NaN"
proof -
  have "0 < real (length xs)"
    using assms(1) by (cases xs) auto
  moreover have "absorbed x (reduce_sum xs)"
    unfolding reduce_sum_def using assms by (intro absorbed_foldl) simp_all
  ultimately show ?thesis
    using assms(2) by (intro absorbed_minus absorbed_divide)
qed

lemma NaN_after_centering:
  assumes "x \<in> set xs" "\<not> isFinite x"
  shows "NaN \<in> set (map (\<lambda>v. v - reduce_sum xs / Fin (real (length xs))) xs)"
  using assms mean_absorbs [OF assms] by force

lemma sumSquaresLoop_NaN:
  "k \<le> length c \<Longrightarrow> acc = NaN \<or> (\<exists>i. k \<le> i \<and> i < length c \<and> c ! i = NaN) \<Longrightarrow>
     sumSquaresLoop c (int (length c)) acc (int k) = NaN"
proof (induction "length c - k" arbitrary: k acc)
  case 0
  then show ?case by (subst sumSquaresLoop.simps) auto
next
  case (Suc d)
  then have lt: "k < length c" by simp
  have suc: "int k + 1 = int (Suc k)" by simp
  have step: "sumSquaresLoop c (int (length c)) acc (int k) =
              sumSquaresLoop c (int (length c)) (acc + c ! k * c ! k) (int (Suc k))"
    using lt by (subst sumSquaresLoop.simps) (simp add: arr_get_nat suc del: of_nat_Suc)
  have "acc + c ! k * c ! k = NaN \<or> (\<exists>i. Suc k \<le> i \<and> i < length c \<and> c ! i = NaN)"
  proof (cases "acc = NaN \<or> c ! k = NaN")
    case True
    then show ?thesis by (cases acc) auto
  next
    case False
    with Suc.prems(2) obtain i where "k \<le> i" "i < length c" "c ! i = NaN" by auto
    with False have "Suc k \<le> i" by (cases "i = k") auto
    then show ?thesis using \<open>i < length c\<close> \<open>c ! i = NaN\<close> by blast
  qed
  then have "sumSquaresLoop c (int (length c)) (acc + c ! k * c ! k) (int (Suc k)) = NaN"
    using Suc.hyps(2) lt by (intro Suc.hyps(1)) simp_all
  with step show ?case by simp
qed

lemma lagLoop_NaN:
  "k \<le> length correlations \<Longrightarrow>
     lagLoop c n NaN correlations (int k) =
       take k correlations @ replicate (length correlations - k) NaN"
proof (induction "length correlations - k" arbitrary: k correlations)
  case 0
  then show ?case by (subst lagLoop.simps) simp
next
  case (Suc d)
  then have lt: "k < length correlations" by simp
  have suc: "int k + 1 = int (Suc k)" by simp
  have div: "x / NaN = NaN" for x :: number by (cases x) simp_all
  have step: "lagLoop c n NaN correlations (int k) =
              lagLoop c n NaN (correlations[k := NaN]) (int (Suc k))"
    using lt by (subst lagLoop.simps) (simp add: Let_def arr_set_nat div suc del: of_nat_Suc)
  have "lagLoop c n NaN (correlations[k := NaN]) (int (Suc k)) =
        take (Suc k) (correlations[k := NaN]) @
        replicate (length (correlations[k := NaN]) - Suc k) NaN"
    using Suc.hyps(2) lt by (intro Suc.hyps(1)) simp_all
  also have "\<dots> = take k correlations @ replicate (length correlations - k) NaN"
  proof -
    have "length correlations - k = Suc (length correlations - Suc k)"
      using lt by simp
    then have "replicate (length correlations - k) NaN =
               NaN # replicate (length correlations - Suc k) NaN"
      by simp
    then show ?thesis
      using lt by (simp add: take_Suc_conv_app_nth)
  qed
  finally show ?case using step by simp
qed

lemma autocorrelate_nonfinite:
  assumes "x \<in> set buffer" "\<not> isFinite x"
  shows "autocorrelate buffer = replicate (length buffer div 2) NaN"
proof -
  let ?c = "map (\<lambda>v. v - reduce_sum buffer / Fin (real (length buffer))) buffer"
  have "NaN \<in> set ?c"
    using assms by (rule NaN_after_centering)
  then obtain i where i: "i < length ?c" "?c ! i = NaN"
    by (metis in_set_conv_nth)
  have "sumSquaresLoop ?c (int (length ?c)) (Fin 0) (int 0) = NaN"
    using i by (intro sumSquaresLoop_NaN) auto
  then have ss: "sumSquaresLoop ?c (int (length buffer)) (Fin 0) 0 = NaN"
    by simp
  have "lagLoop ?c (int (length buffer)) NaN (new_Float32Array (length buffer div 2)) (int 0) =
        take 0 (new_Float32Array (length buffer div 2)) @
        replicate (length (new_Float32Array (length buffer div 2)) - 0) NaN"
    by (rule lagLoop_NaN) simp
  then have lag: "lagLoop ?c (int (length buffer)) NaN (new_Float32Array (length buffer div 2)) 0 =
        replicate (length buffer div 2) NaN"
    by simp
  show ?thesis
    unfolding autocorrelate_unfold centerLoop_from_0 ss lag
    by (simp add: strict_eq_def)
qed

lemma nonfinite_plus_right: "\<not> isFinite y \<Longrightarrow> \<not> isFinite (x + y)"
  by (cases x; cases y) auto

lemma nonfinite_scaled: "\<not> isFinite y \<Longrightarrow> a \<noteq> 0 \<Longrightarrow> \<not> isFinite (Fin a * y)"
  by (cases y) (auto simp: inf_of_sign_def sgn_real_def)

lemma lowPassLoop_nonfinite:
  assumes "length filtered = length buffer" "j < length buffer" "\<not> isFinite (buffer ! j)"
    and "j < k \<longrightarrow> \<not> isFinite (filtered ! j)" "1 \<le> k"
  shows "\<not> isFinite (lowPassLoop (Fin 0.8) buffer filtered (int k) ! j)"
  using assms(1,4,5)
proof (induction "length buffer - k" arbitrary: k filtered)
  case 0
  then have "lowPassLoop (Fin 0.8) buffer filtered (int k) = filtered"
    by (subst lowPassLoop.simps) simp
  moreover have "j < k" using 0 assms(2) by simp
  ultimately show ?case using "0.prems" by simp
next
  case (Suc d)
  then have lt: "k < length buffer" by simp
  have suc: "int k + 1 = int (Suc k)" by simp
  let ?v = "Fin 0.8 * arr_get filtered (int k - 1) + (1 - Fin 0.8) * arr_get buffer (int k)"
  have step: "lowPassLoop (Fin 0.8) buffer filtered (int k) =
              lowPassLoop (Fin 0.8) buffer (filtered[k := ?v]) (int (Suc k))"
    using lt Suc.prems(1)
    by (subst lowPassLoop.simps) (simp add: arr_set_nat suc del: of_nat_Suc)
  have new: "j = k \<Longrightarrow> \<not> isFinite ?v"
  proof -
    assume "j = k"
    then have "\<not> isFinite (arr_get buffer (int k))"
      using assms(3) lt by (simp add: arr_get_nat)
    then have "\<not> isFinite ((1 - Fin 0.8) * arr_get buffer (int k))"
      using nonfinite_scaled [of "arr_get buffer (int k)" "0.2"] by simp
    then show ?thesis by (rule nonfinite_plus_right)
  qed
  have "\<not> isFinite (lowPassLoop (Fin 0.8) buffer (filtered[k := ?v]) (int (Suc k)) ! j)"
  proof (rule Suc.hyps(1))
    show "d = length buffer - Suc k" using Suc.hyps(2) by simp
    show "length (filtered[k := ?v]) = length buffer" using Suc.prems(1) by simp
    show "1 \<le> Suc k" by simp
    show "j < Suc k \<longrightarrow> \<not> isFinite (filtered[k := ?v] ! j)"
      using Suc.prems(1,2) lt new by (cases "j = k") (auto simp: less_Suc_eq)
  qed
  with step show ?case by simp
qed

lemma applyGuitarFrequencyFilter_unfold:
  "applyGuitarFrequencyFilter buffer =
     map (\<lambda>v. v - reduce_sum
                     (lowPassLoop (Fin 0.8) buffer
                        (arr_set (new_Float32Array (length buffer)) 0 (arr_get buffer 0)) 1) /
                   Fin (real (length buffer)))
       (lowPassLoop (Fin 0.8) buffer
          (arr_set (new_Float32Array (length buffer)) 0 (arr_get buffer 0)) 1)"
  using removeMeanLoop_map [of 0] by (simp add: applyGuitarFrequencyFilter_def Let_def)

lemma applyGuitarFrequencyFilter_nonfinite:
  assumes "x \<in> set buffer" "\<not> isFinite x"
  shows "NaN \<in> set (applyGuitarFrequencyFilter buffer)"
proof -
  let ?init = "arr_set (new_Float32Array (length buffer)) 0 (arr_get buffer 0)"
  let ?y = "lowPassLoop (Fin 0.8) buffer ?init 1"
  obtain j where j: "j < length buffer" "buffer ! j = x"
    using assms(1) by (metis in_set_conv_nth)
  have init0: "j < 1 \<longrightarrow> \<not> isFinite (?init ! j)"
    using j assms(2) arr_set_nat [of 0 "new_Float32Array (length buffer)"]
      arr_get_nat [of 0 buffer]
    by auto
  have "\<not> isFinite (lowPassLoop (Fin 0.8) buffer ?init (int 1) ! j)"
    using j assms(2) init0 by (intro lowPassLoop_nonfinite) simp_all
  then have nf: "\<not> isFinite (?y ! j)" by simp
  have len: "length ?y = length buffer" by simp
  have mem: "?y ! j \<in> set ?y"
    using j len by simp
  have "NaN \<in> set (map (\<lambda>v. v - reduce_sum ?y / Fin (real (length ?y))) ?y)"
    using mem nf by (rule NaN_after_centering)
  then show ?thesis
    unfolding applyGuitarFrequencyFilter_unfold len .
qed

lemma scanLoop_no_localMax:
  "(\<And>L. \<not> isLocalMax cs L) \<Longrightarrow> scanLoop cs hi p st = st"
proof (induction cs hi p st rule: scanLoop.induct)
  case (1 correlations bound period st)
  have "scanStep correlations period st = st"
    using "1.prems" [of period]
    by (cases st) (auto simp: scanStep_def isLocalMax_def Let_def)
  then show ?case
    using "1.IH" "1.prems" by (subst scanLoop.simps) simp
qed

lemma no_localMax_replicate: "\<not> isLocalMax (replicate m v) L"
proof -
  have "arr_get (replicate m v) i = v \<or> arr_get (replicate m v) i = NaN" for i
    by (auto simp: arr_get_def)
  then have "\<not> arr_get (replicate m v) L > arr_get (replicate m v) (L - 1)"
    by (metis number_less_not_NaN number_le_not_less number_le_refl)
  then show ?thesis by (simp add: isLocalMax_def)
qed

lemma findFundamental_replicate:
  "findFundamentalFrequencyWithConfidence this (replicate m v) = None"
proof -
  have "findPeak this (replicate m v) = (0, 0, 0)"
    unfolding findPeak_def by (rule scanLoop_no_localMax) (rule no_localMax_replicate)
  then show ?thesis
    by (simp add: findFundamentalFrequencyWithConfidence_def)
qed

lemma lowpass_replicate: "i < n \<Longrightarrow> lowpass (replicate n c) i = c"
  by (induction i) simp_all

lemma spec_filter_replicate: "spec_filter (replicate n c) = replicate n 0"
proof (cases "n = 0")
  case True
  then show ?thesis by (simp add: spec_filter_def)
next
  case False
  have y: "map (lowpass (replicate n c)) [0..<n] = replicate n c"
    by (intro nth_equalityI) (simp_all add: lowpass_replicate)
  have "sum_list (replicate n c) / real n = c"
    using False by (simp add: sum_list_replicate)
  then show ?thesis
    by (simp add: spec_filter_def Let_def y map_replicate_const)
qed

lemma sumSquares_of_zeros: "sumSquares_of (replicate n 0) = 0"
  by (simp add: sumSquares_of_def centered_def sum_list_replicate)

lemma autocorrelate_DC:
  "autocorrelate (applyGuitarFrequencyFilter (replicate n (Fin c))) = replicate (n div 2) (Fin 0)"
proof -
  have "applyGuitarFrequencyFilter (map Fin (replicate n c)) = map Fin (replicate n 0)"
    unfolding applyGuitarFrequencyFilter_Fin spec_filter_replicate ..
  moreover have "autocorrelate (map Fin (replicate n 0)) = replicate (n div 2) (Fin 0)"
    unfolding autocorrelate_Fin by (simp add: sumSquares_of_zeros)
  ultimately show ?thesis by simp
qed

lemma arr_get_map_Fin_cases:
  "arr_get (map Fin zs) i = NaN \<or> isFinite (arr_get (map Fin zs) i)"
proof (cases "0 \<le> i \<and> i < int (length zs)")
  case True
  then show ?thesis by (simp add: arr_get_map_Fin)
next
  case False
  then show ?thesis by (auto simp: arr_get_def)
qed

lemma scanStep_finite:
  assumes "scanStep (map Fin zs) p (mc, bp, sb) = (mc', bp', sb')" "isFinite mc" "isFinite sb"
  shows "isFinite mc' \<and> isFinite sb'"
proof (cases "isLocalMax (map Fin zs) p")
  case False
  then have "scanStep (map Fin zs) p (mc, bp, sb) = (mc, bp, sb)"
    by (auto simp: scanStep_def isLocalMax_def Let_def)
  with assms show ?thesis by simp
next
  case True
  then have "arr_get (map Fin zs) p \<noteq> NaN" by (rule isLocalMax_not_NaN)
  then have "isFinite (arr_get (map Fin zs) p)"
    using arr_get_map_Fin_cases [of zs p] by simp
  with assms show ?thesis
    by (auto simp: scanStep_def Let_def split: if_splits)
qed

lemma scanLoop_finite:
  "scanLoop (map Fin zs) hi p st = (mc', bp', sb') \<Longrightarrow> isFinite (fst st) \<Longrightarrow>
     isFinite (snd (snd st)) \<Longrightarrow> isFinite mc' \<and> isFinite sb'"
proof (induction "map Fin zs" hi p st rule: scanLoop.induct)
  case (1 bound period st)
  show ?case
  proof (cases "period < bound")
    case True
    obtain mc bp sb where st: "st = (mc, bp, sb)" by (cases st) auto
    obtain mc1 bp1 sb1 where st1: "scanStep (map Fin zs) period st = (mc1, bp1, sb1)"
      by (cases "scanStep (map Fin zs) period st") auto
    have fin1: "isFinite mc1 \<and> isFinite sb1"
      using scanStep_finite [OF st1 [unfolded st]] "1.prems"(2,3) st by simp
    have "scanLoop (map Fin zs) bound (period + 1) (scanStep (map Fin zs) period st) =
          (mc', bp', sb')"
      using "1.prems"(1) True by (subst (asm) scanLoop.simps) simp
    then show ?thesis
      using True fin1 st1 by (intro "1.hyps") simp_all
  next
    case False
    then have "scanLoop (map Fin zs) bound period st = st"
      by (subst scanLoop.simps) simp
    with "1.prems" show ?thesis by auto
  qed
qed

lemma findPeak_finite:
  "findPeak this (map Fin zs) = (mc, bp, sb) \<Longrightarrow> isFinite mc \<and> isFinite sb"
  using scanLoop_finite [of zs _ _ "(0, 0, 0)" mc bp sb] by (simp add: findPeak_def)

lemma findPeak_range:
  "findPeak this cs = (mc, bp, sb) \<Longrightarrow> bp \<noteq> 0 \<Longrightarrow>
     minPeriod this \<le> bp \<and> bp < maxPeriod this \<and> bp < int (length cs) - 1 \<and> isLocalMax cs bp"
  using findPeak_inv [of cs this] by (auto simp: scanInv_def scanned_def)

lemma calculateConfidence_finite:
  "bestPeriod \<noteq> 0 \<Longrightarrow> isFinite mc \<Longrightarrow> isFinite sb \<Longrightarrow>
     isFinite (calculateConfidence this mc sb cs bestPeriod)"
  by (cases mc; cases sb)
    (simp_all add: calculateConfidence_def Let_def calculateConsistencyBonus_fraction)

lemma parabolicInterpolation_in_band:
  assumes "f = parabolicInterpolation this (map Fin zs) p" "this_sampleRate this \<noteq> 0"
    and "\<not> (f < Fin lo \<or> f > Fin hi)"
  shows "isFinite f"
proof (cases "0 < p \<and> p < int (length zs) - 1")
  case False
  then have "parabolicInterpolation this (map Fin zs) p =
             Fin (this_sampleRate this) / Fin (real_of_int p)"
    by (auto simp: parabolicInterpolation_def)
  then show ?thesis
    using assms
    by (cases "p = 0") (auto simp: inf_of_sign_def sgn_real_def split: if_splits)
next
  case True
  then have r: "arr_get (map Fin zs) (p - 1) = Fin (zs ! nat (p - 1))"
    "arr_get (map Fin zs) p = Fin (zs ! nat p)"
    "arr_get (map Fin zs) (p + 1) = Fin (zs ! nat (p + 1))"
    by (simp_all add: arr_get_map_Fin)
  have branch: "\<not> (p \<le> 0 \<or> p \<ge> int (length (map Fin zs)) - 1)"
    using True by simp
  show ?thesis
    using assms True
    unfolding parabolicInterpolation_def if_not_P [OF branch] r
    by (auto simp: Let_def strict_eq_def inf_of_sign_def sgn_real_def split: if_splits)
qed

lemma findFundamental_finite:
  assumes "findFundamentalFrequencyWithConfidence this (map Fin zs) = Some (f, c)"
    and "\<not> (f < Fin lo \<or> f > Fin hi)"
  shows "isFinite f \<and> isFinite c"
proof -
  obtain mc bp sb where peak: "findPeak this (map Fin zs) = (mc, bp, sb)"
    by (cases "findPeak this (map Fin zs)") auto
  from assms(1) have bp: "bp \<noteq> 0"
    and f: "f = parabolicInterpolation this (map Fin zs) bp"
    and c: "c = calculateConfidence this mc sb (map Fin zs) bp"
    by (auto simp: findFundamentalFrequencyWithConfidence_def peak Let_def split: if_splits)
  have fin: "isFinite mc" "isFinite sb"
    using findPeak_finite [OF peak] by simp_all
  have "minPeriod this < maxPeriod this"
    using findPeak_range [OF peak bp] by simp
  then have sr: "this_sampleRate this \<noteq> 0"
    by (auto simp: minPeriod_def maxPeriod_def)
  have "isFinite f"
    using f sr assms(2) by (rule parabolicInterpolation_in_band)
  moreover have "isFinite c"
    unfolding c using bp fin by (rule calculateConfidence_finite)
  ultimately show ?thesis by simp
qed

lemma all_finite_map_Fin: "(\<forall>x \<in> set xs. isFinite x) \<Longrightarrow> \<exists>zs. xs = map Fin zs"
proof (induction xs)
  case Nil
  then show ?case by simp
next
  case (Cons a xs)
  then obtain zs where "xs = map Fin zs" by auto
  moreover obtain z where "a = Fin z" using Cons.prems by (cases a) auto
  ultimately have "a # xs = map Fin (z # zs)" by simp
  then show ?case by (rule exI [of _ "z # zs"])
qed

lemma autocorrelate_map_Fin: "\<exists>ws. autocorrelate (map Fin zs) = map Fin ws"
proof (cases "sumSquares_of zs = 0")
  case True
  then have "autocorrelate (map Fin zs) = map Fin (replicate (length zs div 2) 0)"
    by (simp add: autocorrelate_Fin)
  then show ?thesis by blast
next
  case False
  then have "autocorrelate (map Fin zs) =
             map Fin (map (\<lambda>L. lagProducts zs L / sumSquares_of zs) [0..<length zs div 2])"
    by (simp add: autocorrelate_Fin)
  then show ?thesis by blast
qed

lemma pipeline_cases:
  "findFundamentalFrequencyWithConfidence this
     (autocorrelate (applyGuitarFrequencyFilter frame)) = None \<or>
   (\<exists>ws. autocorrelate (applyGuitarFrequencyFilter frame) = map Fin ws)"
proof (cases "\<forall>x \<in> set frame. isFinite x")
  case True
  then obtain zs where "frame = map Fin zs"
    using all_finite_map_Fin by blast
  then have "applyGuitarFrequencyFilter frame = map Fin (spec_filter zs)"
    by (simp add: applyGuitarFrequencyFilter_Fin)
  then show ?thesis
    using autocorrelate_map_Fin [of "spec_filter zs"] by simp
next
  case False
  then obtain x where "x \<in> set frame" "\<not> isFinite x" by blast
  then have "NaN \<in> set (applyGuitarFrequencyFilter frame)"
    by (rule applyGuitarFrequencyFilter_nonfinite)
  then have "autocorrelate (applyGuitarFrequencyFilter frame) =
             replicate (length (applyGuitarFrequencyFilter frame) div 2) NaN"
    by (rule autocorrelate_nonfinite) simp
  then show ?thesis
    by (simp add: findFundamental_replicate)
qed

lemma detectPitchWithConfidence_finite:
  assumes "detectPitchWithConfidence this frame = Some (f, c)"
  shows "isFinite f \<and> isFinite c"
proof -
  let ?cs = "autocorrelate (applyGuitarFrequencyFilter frame)"
  from assms have found: "findFundamentalFrequencyWithConfidence this ?cs = Some (f, c)"
    and band: "\<not> (f < Fin (minFrequency (this_config this)) \<or>
                  f > Fin (maxFrequency (this_config this)))"
    by (auto simp: detectPitchWithConfidence_def Let_def split: if_splits option.splits)
  then obtain ws where "?cs = map Fin ws"
    using pipeline_cases [of this frame] by auto
  with found band show ?thesis
    using findFundamental_finite by metis
qed

lemma detectPitch_via_confidence:
  "detectPitch this frame =
     (case detectPitchWithConfidence this frame of
        None \<Rightarrow> None
      | Some (f, c) \<Rightarrow> if c < Fin 0.3 then None else Some f)"
  by (auto simp: detectPitch_def detectPitchWithConfidence_def Let_def split: option.splits)

lemma smallDetector_quiet:
  "detectPitchWithConfidence smallDetector
     (map Fin [1, - 4, - 5, 4, 5, - 4, - 5, 4, 5, - 4, - 5, 4]) = Some (Fin 25, Fin (11 / 45))"
proof -
  have f: "applyGuitarFrequencyFilter (map Fin [1, - 4, - 5, 4, 5, - 4, - 5, 4, 5, - 4, - 5, 4]) =
           map Fin [1, 0, - 1, 0, 1, 0, - 1, 0, 1, 0, - 1, 0]"
    unfolding applyGuitarFrequencyFilter_Fin
    by (simp add: spec_filter_def Let_def upt_rec eval_nat_numeral)
  have ss: "sumSquares_of [1, 0, - 1, 0, 1, 0, - 1, 0, 1, 0, - 1, 0] = 6"
    by (simp add: sumSquares_of_def centered_def upt_rec eval_nat_numeral)
  have lp: "map (lagProducts [1, 0, - 1, 0, 1, 0, - 1, 0, 1, 0, - 1, 0]) [0..<6] =
            [6, 0, - 5, 0, 4, 0]"
    by (simp add: lagProducts_def centered_def upt_rec eval_nat_numeral)
  have a: "autocorrelate (map Fin [1, 0, - 1, 0, 1, 0, - 1, 0, 1, 0, - 1, 0]) =
           [Fin 1, Fin 0, Fin (- (5 / 6)), Fin 0, Fin (2 / 3), Fin 0]"
  proof -
    have len: "length [1, 0, - 1, 0, 1, 0, - 1, 0, 1, 0, - 1, 0 :: real] div 2 = 6"
      by simp
    have "autocorrelate (map Fin [1, 0, - 1, 0, 1, 0, - 1, 0, 1, 0, - 1, 0]) =
          map (\<lambda>L. Fin (lagProducts [1, 0, - 1, 0, 1, 0, - 1, 0, 1, 0, - 1, 0] L / 6)) [0..<6]"
      unfolding autocorrelate_Fin ss len by (subst if_not_P) simp_all
    also have "\<dots> = map (\<lambda>v. Fin (v / 6))
                        (map (lagProducts [1, 0, - 1, 0, 1, 0, - 1, 0, 1, 0, - 1, 0]) [0..<6])"
      by (simp only: map_map o_def)
    finally show ?thesis unfolding lp by simp
  qed
  have p: "findFundamentalFrequencyWithConfidence smallDetector
             [Fin 1, Fin 0, Fin (- (5 / 6)), Fin 0, Fin (2 / 3), Fin 0] =
           Some (Fin 25, Fin (11 / 45))"
    by (simp add: findFundamentalFrequencyWithConfidence_def findPeak_def smallDetector_def
        minPeriod_def maxPeriod_def scanLoop.simps scanStep_def arr_get_def Let_def
        parabolicInterpolation_def strict_eq_def calculateConfidence_def
        calculateConsistencyBonus_fraction harmonicFraction_def harmonicChecked_def)
  show ?thesis
    unfolding detectPitchWithConfidence_def Let_def f a p
    by (simp add: smallDetector_def)
qed

lemma smallDetector_clear:
  "detectPitchWithConfidence smallDetector
     (map Fin [1, - 4, - 5, 4, 5, - 4, - 5, 4, 5, - 4, - 5, 4, 5, - 4, - 5, 4, 5, - 4, - 5, 4]) =
   Some (Fin 25, Fin (44 / 125))"
proof -
  let ?ys = "[1, 0, - 1, 0, 1, 0, - 1, 0, 1, 0, - 1, 0, 1, 0, - 1, 0, 1, 0, - 1, 0] :: real list"
  have f: "applyGuitarFrequencyFilter
             (map Fin [1, - 4, - 5, 4, 5, - 4, - 5, 4, 5, - 4, - 5, 4, 5, - 4, - 5, 4, 5, - 4, - 5, 4]) =
           map Fin ?ys"
    unfolding applyGuitarFrequencyFilter_Fin
    by (simp add: spec_filter_def Let_def upt_rec eval_nat_numeral)
  have ss: "sumSquares_of ?ys = 10"
    by (simp add: sumSquares_of_def centered_def upt_rec eval_nat_numeral)
  have lp: "map (lagProducts ?ys) [0..<10] = [10, 0, - 9, 0, 8, 0, - 7, 0, 6, 0]"
    by (simp add: lagProducts_def centered_def upt_rec eval_nat_numeral)
  have a: "autocorrelate (map Fin ?ys) =
           [Fin 1, Fin 0, Fin (- (9 / 10)), Fin 0, Fin (4 / 5), Fin 0, Fin (- (7 / 10)), Fin 0,
            Fin (3 / 5), Fin 0]"
  proof -
    have len: "length ?ys div 2 = 10"
      by simp
    have "autocorrelate (map Fin ?ys) = map (\<lambda>L. Fin (lagProducts ?ys L / 10)) [0..<10]"
      unfolding autocorrelate_Fin ss len by (subst if_not_P) simp_all
    also have "\<dots> = map (\<lambda>v. Fin (v / 10)) (map (lagProducts ?ys) [0..<10])"
      by (simp only: map_map o_def)
    finally show ?thesis unfolding lp by simp
  qed
  have p: "findFundamentalFrequencyWithConfidence smallDetector
             [Fin 1, Fin 0, Fin (- (9 / 10)), Fin 0, Fin (4 / 5), Fin 0, Fin (- (7 / 10)), Fin 0,
              Fin (3 / 5), Fin 0] =
           Some (Fin 25, Fin (44 / 125))"
    by (simp add: findFundamentalFrequencyWithConfidence_def findPeak_def smallDetector_def
        minPeriod_def maxPeriod_def scanLoop.simps scanStep_def arr_get_def Let_def
        parabolicInterpolation_def strict_eq_def calculateConfidence_def
        calculateConsistencyBonus_fraction harmonicFraction_def harmonicChecked_def)
  show ?thesis
    unfolding detectPitchWithConfidence_def Let_def f a p
    by (simp add: smallDetector_def)
qed

text \<open>
  C2. \<open>detectPitch\<close> returns \<open>None\<close> whenever the confidence is below 0.3;
  \<open>detectPitchWithConfidence\<close> applies no floor and returns the estimate whenever peak
  selection succeeds and the refined frequency lies within
  \<open>[minFrequency, maxFrequency]\<close>; and \<open>detectPitch\<close> returns \<open>f\<close> exactly when
  \<open>detectPitchWithConfidence\<close> returns \<open>(f, c)\<close> with \<open>c \<ge> 0.3\<close>.
\<close>

theorem detectPitch_confidence_floor:
  "(detectPitchWithConfidence this frame = Some (f, c) \<and> c < Fin 0.3 \<longrightarrow>
      detectPitch this frame = None) \<and>
   (findFundamentalFrequencyWithConfidence this
      (autocorrelate (applyGuitarFrequencyFilter frame)) = Some (f, c) \<and>
    Fin (minFrequency (this_config this)) \<le> f \<and> f \<le> Fin (maxFrequency (this_config this)) \<longrightarrow>
      detectPitchWithConfidence this frame = Some (f, c)) \<and>
   (detectPitch this frame = Some f \<longleftrightarrow>
      (\<exists>c. detectPitchWithConfidence this frame = Some (f, c) \<and> Fin 0.3 \<le> c))"
proof (intro conjI impI)
  assume "detectPitchWithConfidence this frame = Some (f, c) \<and> c < Fin 0.3"
  then show "detectPitch this frame = None"
    by (simp add: detectPitch_via_confidence)
next
  assume a: "findFundamentalFrequencyWithConfidence this
      (autocorrelate (applyGuitarFrequencyFilter frame)) = Some (f, c) \<and>
    Fin (minFrequency (this_config this)) \<le> f \<and> f \<le> Fin (maxFrequency (this_config this))"
  then have band: "\<not> f < Fin (minFrequency (this_config this))"
    "\<not> f > Fin (maxFrequency (this_config this))"
    by (simp_all add: number_le_not_less)
  have "frame \<noteq> []"
  proof
    assume "frame = []"
    then have "autocorrelate (applyGuitarFrequencyFilter frame) = replicate 0 (Fin 0)"
      using applyGuitarFrequencyFilter_Fin [of "[]"] autocorrelate_Fin [of "[]"]
      by (simp add: spec_filter_def sumSquares_of_def)
    then have "findFundamentalFrequencyWithConfidence this
                 (autocorrelate (applyGuitarFrequencyFilter frame)) = None"
      by (simp only: findFundamental_replicate)
    with a show False by simp
  qed
  with a band show "detectPitchWithConfidence this frame = Some (f, c)"
    by (simp add: detectPitchWithConfidence_def Let_def)
next
  show "detectPitch this frame = Some f \<longleftrightarrow>
      (\<exists>c. detectPitchWithConfidence this frame = Some (f, c) \<and> Fin 0.3 \<le> c)"
  proof
    assume d: "detectPitch this frame = Some f"
    then obtain c where c: "detectPitchWithConfidence this frame = Some (f, c)" "\<not> c < Fin 0.3"
      by (auto simp: detectPitch_via_confidence split: option.splits if_splits)
    have "isFinite c"
      using detectPitchWithConfidence_finite [OF c(1)] by simp
    then have "Fin 0.3 \<le> c"
      using c(2) by (cases c) (auto simp: less_eq_number_def)
    with c(1) show "\<exists>c. detectPitchWithConfidence this frame = Some (f, c) \<and> Fin 0.3 \<le> c"
      by blast
  next
    assume "\<exists>c. detectPitchWithConfidence this frame = Some (f, c) \<and> Fin 0.3 \<le> c"
    then obtain c where c: "detectPitchWithConfidence this frame = Some (f, c)" "Fin 0.3 \<le> c"
      by blast
    then have "\<not> c < Fin 0.3"
      by (simp add: number_le_not_less)
    with c(1) show "detectPitch this frame = Some f"
      by (simp add: detectPitch_via_confidence)
  qed
qed

theorem detectPitch_confidence_floor_witness:
  "detectPitchWithConfidence smallDetector
     (map Fin [1, - 4, - 5, 4, 5, - 4, - 5, 4, 5, - 4, - 5, 4]) = Some (Fin 25, Fin (11 / 45)) \<and>
   Fin (11 / 45) < Fin 0.3 \<and>
   detectPitch smallDetector (map Fin [1, - 4, - 5, 4, 5, - 4, - 5, 4, 5, - 4, - 5, 4]) = None \<and>
   detectPitchWithConfidence smallDetector
     (map Fin [1, - 4, - 5, 4, 5, - 4, - 5, 4, 5, - 4, - 5, 4, 5, - 4, - 5, 4, 5, - 4, - 5, 4]) =
     Some (Fin 25, Fin (44 / 125)) \<and>
   Fin 0.3 \<le> Fin (44 / 125) \<and>
   detectPitch smallDetector
     (map Fin [1, - 4, - 5, 4, 5, - 4, - 5, 4, 5, - 4, - 5, 4, 5, - 4, - 5, 4, 5, - 4, - 5, 4]) =
     Some (Fin 25)"
proof -
  have q: "Fin (11 / 45) < Fin 0.3" by simp
  have l: "Fin 0.3 \<le> Fin (44 / 125)" by simp
  have n: "detectPitch smallDetector
             (map Fin [1, - 4, - 5, 4, 5, - 4, - 5, 4, 5, - 4, - 5, 4]) = None"
    using detectPitch_confidence_floor
      [of smallDetector "map Fin [1, - 4, - 5, 4, 5, - 4, - 5, 4, 5, - 4, - 5, 4]"
        "Fin 25" "Fin (11 / 45)"]
      smallDetector_quiet q
    by blast
  have s: "detectPitch smallDetector
     (map Fin [1, - 4, - 5, 4, 5, - 4, - 5, 4, 5, - 4, - 5, 4, 5, - 4, - 5, 4, 5, - 4, - 5, 4]) =
     Some (Fin 25)"
    using detectPitch_confidence_floor
      [of smallDetector
        "map Fin [1, - 4, - 5, 4, 5, - 4, - 5, 4, 5, - 4, - 5, 4, 5, - 4, - 5, 4, 5, - 4, - 5, 4]"
        "Fin 25" "Fin (44 / 125)"]
      smallDetector_clear l
    by blast
  show ?thesis
    using smallDetector_quiet smallDetector_clear q l n s by blast
qed

text \<open>
  C8. For a detector whose band limits are positive: on every frame that contains NaN or
  an infinity, and on every constant frame (all zeros included), \<open>detectPitch\<close> and
  \<open>detectPitchWithConfidence\<close> return \<open>None\<close>; and on every frame whatsoever a returned
  frequency is finite. Every function of the model is total, so the calls return.
\<close>

theorem detectPitch_hostile_input:
  assumes "0 < minFrequency (this_config this)" "0 < maxFrequency (this_config this)"
  shows "((\<exists>x \<in> set frame. \<not> isFinite x) \<or> frame = replicate (length frame) (Fin dc) \<longrightarrow>
            detectPitch this frame = None \<and> detectPitchWithConfidence this frame = None) \<and>
         (detectPitchWithConfidence this frame = Some (f, c) \<longrightarrow> isFinite f) \<and>
         (detectPitch this frame = Some f \<longrightarrow> isFinite f)"
proof (intro conjI impI)
  assume h: "(\<exists>x \<in> set frame. \<not> isFinite x) \<or> frame = replicate (length frame) (Fin dc)"
  have none: "findFundamentalFrequencyWithConfidence this
                (autocorrelate (applyGuitarFrequencyFilter frame)) = None"
    using h
  proof
    assume "\<exists>x \<in> set frame. \<not> isFinite x"
    then obtain x where "x \<in> set frame" "\<not> isFinite x" by blast
    then have "NaN \<in> set (applyGuitarFrequencyFilter frame)"
      by (rule applyGuitarFrequencyFilter_nonfinite)
    then have "autocorrelate (applyGuitarFrequencyFilter frame) =
               replicate (length (applyGuitarFrequencyFilter frame) div 2) NaN"
      by (rule autocorrelate_nonfinite) simp
    then show ?thesis
      by (simp add: findFundamental_replicate)
  next
    assume "frame = replicate (length frame) (Fin dc)"
    then have "autocorrelate (applyGuitarFrequencyFilter frame) =
               replicate (length frame div 2) (Fin 0)"
      using autocorrelate_DC [of "length frame" dc] by simp
    then show ?thesis
      by (simp add: findFundamental_replicate)
  qed
  show "detectPitch this frame = None"
    using none by (simp add: detectPitch_def Let_def)
  show "detectPitchWithConfidence this frame = None"
    using none by (simp add: detectPitchWithConfidence_def Let_def)
next
  assume "detectPitchWithConfidence this frame = Some (f, c)"
  then show "isFinite f"
    using detectPitchWithConfidence_finite by blast
next
  assume "detectPitch this frame = Some f"
  then obtain c where "detectPitchWithConfidence this frame = Some (f, c)"
    by (auto simp: detectPitch_via_confidence split: option.splits if_splits)
  then show "isFinite f"
    using detectPitchWithConfidence_finite by blast
qed

theorem detectPitch_hostile_input_witness:
  "0 < minFrequency (this_config smallDetector) \<and> 0 < maxFrequency (this_config smallDetector) \<and>
   (\<exists>x \<in> set [Fin 0.1, NaN, Fin 0.1, PosInf]. \<not> isFinite x) \<and>
   detectPitch smallDetector [Fin 0.1, NaN, Fin 0.1, PosInf] = None \<and>
   detectPitchWithConfidence smallDetector [Fin 0.1, NaN, Fin 0.1, PosInf] = None \<and>
   detectPitch smallDetector (replicate 4 (Fin 0.5)) = None \<and>
   detectPitchWithConfidence smallDetector (replicate 4 (Fin 0.5)) = None"
proof -
  have c: "0 < minFrequency (this_config smallDetector)"
    "0 < maxFrequency (this_config smallDetector)"
    by (simp_all add: smallDetector_def)
  have h: "\<exists>x \<in> set [Fin 0.1, NaN, Fin 0.1, PosInf]. \<not> isFinite x"
    by simp
  have d: "replicate 4 (Fin 0.5) = replicate (length (replicate 4 (Fin 0.5))) (Fin 0.5)"
    by simp
  show ?thesis
    using detectPitch_hostile_input [OF c, of "[Fin 0.1, NaN, Fin 0.1, PosInf]"]
      detectPitch_hostile_input [OF c, of "replicate 4 (Fin 0.5)" "0.5"] c h d
    by blast
qed

section \<open>Reads within bounds and non-zero divisors\<close>

lemma arr_read_get: "arr_read cs i = Some v \<Longrightarrow> arr_get cs i = v"
  by (auto simp: arr_read_def arr_get_def split: if_splits)

lemma arr_read_in_range: "0 \<le> i \<Longrightarrow> i < int (length cs) \<Longrightarrow> arr_read cs i = Some (arr_get cs i)"
  by (simp add: arr_read_def arr_get_def)

lemma scanStep_checked_in_range:
  "1 \<le> p \<Longrightarrow> p + 1 < int (length cs) \<Longrightarrow> scanStep_checked cs p st = Some (scanStep cs p st)"
  by (cases st) (simp add: scanStep_checked_def scanStep_def arr_read_in_range Let_def)

lemma scanLoop_checked_in_range:
  "1 \<le> p \<Longrightarrow> hi \<le> int (length cs) - 1 \<Longrightarrow>
     scanLoop_checked cs hi p st = Some (scanLoop cs hi p st)"
proof (induction cs hi p st rule: scanLoop.induct)
  case (1 correlations bound period st)
  show ?case
  proof (cases "period < bound")
    case True
    then have "scanStep_checked correlations period st = Some (scanStep correlations period st)"
      using "1.prems" by (intro scanStep_checked_in_range) simp_all
    moreover have "scanLoop_checked correlations bound (period + 1)
                     (scanStep correlations period st) =
                   Some (scanLoop correlations bound (period + 1)
                     (scanStep correlations period st))"
      using True "1.prems" by (intro "1.IH") simp_all
    ultimately show ?thesis
      using True
      by (subst scanLoop_checked.simps, subst scanLoop.simps) simp
  next
    case False
    then show ?thesis
      by (subst scanLoop_checked.simps, subst scanLoop.simps) simp
  qed
qed

lemma harmonicLoop_checked_total:
  "harmonicLoop_checked cs bp h st = Some (harmonicLoop cs bp h st)"
proof (induction cs bp h st rule: harmonicLoop.induct)
  case (1 correlations bestPeriod harmonic consistentPeaks totalChecked)
  show ?case
    apply (subst harmonicLoop_checked.simps)
    apply (subst harmonicLoop.simps)
    using "1.IH"
    apply (simp add: Let_def arr_read_in_range)
    done
qed

lemma calculateConsistencyBonus_checked_total:
  "calculateConsistencyBonus_checked cs bp = Some (calculateConsistencyBonus cs bp)"
  by (simp add: calculateConsistencyBonus_checked_def calculateConsistencyBonus_def
      harmonicLoop_checked_total split: prod.splits)

lemma calculateConfidence_checked_nonzero:
  "bp \<noteq> 0 \<Longrightarrow>
     calculateConfidence_checked this mc sb cs bp = Some (calculateConfidence this mc sb cs bp)"
  by (simp add: calculateConfidence_checked_def calculateConfidence_def Let_def
      calculateConsistencyBonus_checked_total)

lemma parabolicInterpolation_checked_nonzero:
  "p \<noteq> 0 \<Longrightarrow>
     parabolicInterpolation_checked this cs p = Some (parabolicInterpolation this cs p)"
  by (simp add: parabolicInterpolation_checked_def parabolicInterpolation_def Let_def
      arr_read_in_range)

lemma scanStep_checked_agrees:
  "scanStep_checked cs p st = Some st' \<Longrightarrow> scanStep cs p st = st'"
  by (cases st)
    (auto simp: scanStep_checked_def scanStep_def Let_def
      split: Option.bind_splits if_splits dest!: arr_read_get)

lemma scanLoop_checked_agrees:
  "scanLoop_checked cs hi p st = Some st' \<Longrightarrow> scanLoop cs hi p st = st'"
proof (induction cs hi p st rule: scanLoop.induct)
  case (1 correlations bound period st)
  show ?case
  proof (cases "period < bound")
    case True
    with "1.prems" obtain st1 where
      s: "scanStep_checked correlations period st = Some st1"
      and l: "scanLoop_checked correlations bound (period + 1) st1 = Some st'"
      by (subst (asm) scanLoop_checked.simps) (auto split: Option.bind_splits)
    have "scanStep correlations period st = st1"
      using s by (rule scanStep_checked_agrees)
    with "1.IH" [OF True] l True show ?thesis
      by (subst scanLoop.simps) simp
  next
    case False
    with "1.prems" show ?thesis
      by (subst scanLoop.simps, subst (asm) scanLoop_checked.simps) simp
  qed
qed

text \<open>Whenever the checked selection does not fault, it returns what the source returns.\<close>

lemma findFundamental_checked_agrees:
  "findFundamentalFrequencyWithConfidence_checked this cs = Some r \<Longrightarrow>
     findFundamentalFrequencyWithConfidence this cs = r"
proof -
  assume a: "findFundamentalFrequencyWithConfidence_checked this cs = Some r"
  then obtain st where st:
    "scanLoop_checked cs (min (maxPeriod this) (int (length cs) - 1)) (minPeriod this) (0, 0, 0) =
       Some st"
    by (auto simp: findFundamentalFrequencyWithConfidence_checked_def split: Option.bind_splits)
  then have p: "findPeak this cs = st"
    unfolding findPeak_def by (rule scanLoop_checked_agrees)
  obtain mc bp sb where t: "st = (mc, bp, sb)" by (cases st) auto
  show ?thesis
  proof (cases "mc < Fin 0.15 \<or> bp = 0")
    case True
    then show ?thesis
      using a unfolding findFundamentalFrequencyWithConfidence_checked_def st
      by (auto simp: findFundamentalFrequencyWithConfidence_def p t Let_def)
  next
    case False
    then have "bp \<noteq> 0" by simp
    then show ?thesis
      using a False unfolding findFundamentalFrequencyWithConfidence_checked_def st
      by (auto simp: findFundamentalFrequencyWithConfidence_def p t Let_def
          calculateConfidence_checked_nonzero parabolicInterpolation_checked_nonzero)
  qed
qed

lemma minPeriod_ge_2: "configInvariant this \<Longrightarrow> 2 \<le> minPeriod this"
proof -
  assume c: "configInvariant this"
  then have "0 < maxFrequency (this_config this)"
    and "maxFrequency (this_config this) * 2 < this_sampleRate this"
    by (simp_all add: configInvariant_def)
  then have "2 < this_sampleRate this / maxFrequency (this_config this)"
    by (simp add: pos_less_divide_eq)
  then show ?thesis
    unfolding minPeriod_def by (simp add: le_floor_iff)
qed

text \<open>
  C10. Under the invariant \<open>0 < minFrequency < maxFrequency < sampleRate / 2\<close>,
  \<open>minPeriod\<close> is at least 2; for every correlations array the peak selection with checked
  reads never faults and returns the result of the source's own semantics, so every
  index read by the scan, the harmonic check and the interpolation is within the array
  and \<open>sampleRate / bestPeriod\<close> never has a zero divisor; and a selected \<open>bestPeriod\<close> is at
  least 2 and below \<open>length - 1\<close>.
\<close>

theorem findFundamental_reads_in_bounds:
  assumes "configInvariant this"
  shows "2 \<le> minPeriod this \<and>
         findFundamentalFrequencyWithConfidence_checked this cs =
           Some (findFundamentalFrequencyWithConfidence this cs) \<and>
         (findPeak this cs = (mc, bp, sb) \<and> bp \<noteq> 0 \<longrightarrow>
            2 \<le> bp \<and> bp + 1 < int (length cs))"
proof -
  have m: "2 \<le> minPeriod this"
    using assms by (rule minPeriod_ge_2)
  have scan: "scanLoop_checked cs (min (maxPeriod this) (int (length cs) - 1)) (minPeriod this)
                (0, 0, 0) = Some (findPeak this cs)"
    unfolding findPeak_def using m by (intro scanLoop_checked_in_range) simp_all
  have chk: "findFundamentalFrequencyWithConfidence_checked this cs =
           Some (findFundamentalFrequencyWithConfidence this cs)"
    unfolding findFundamentalFrequencyWithConfidence_checked_def scan
    by (cases "findPeak this cs")
      (simp add: findFundamentalFrequencyWithConfidence_def Let_def
        calculateConfidence_checked_nonzero parabolicInterpolation_checked_nonzero)
  have sel: "findPeak this cs = (mc, bp, sb) \<and> bp \<noteq> 0 \<longrightarrow> 2 \<le> bp \<and> bp + 1 < int (length cs)"
    using findPeak_range [of this cs mc bp sb] m by auto
  show ?thesis using m chk sel by blast
qed

theorem findFundamental_reads_in_bounds_witness:
  "configInvariant smallDetector \<and> minPeriod smallDetector = 2 \<and>
   findPeak smallDetector [Fin 0, Fin 0, Fin 0, Fin 0.8, Fin 0, Fin 0, Fin 0] = (Fin 0.8, 3, Fin 0) \<and>
   (3::int) \<noteq> 0 \<and>
   findFundamentalFrequencyWithConfidence_checked smallDetector
     [Fin 0, Fin 0, Fin 0, Fin 0.8, Fin 0, Fin 0, Fin 0] =
     Some (Some (Fin (100 / 3), Fin 0.352))"
proof -
  let ?cs = "[Fin 0, Fin 0, Fin 0, Fin 0.8, Fin 0, Fin 0, Fin 0]"
  have c: "configInvariant smallDetector"
    by (simp add: configInvariant_def smallDetector_def)
  have m: "minPeriod smallDetector = 2"
    by (simp add: minPeriod_def smallDetector_def)
  have p: "findPeak smallDetector ?cs = (Fin 0.8, 3, Fin 0)"
    by (simp add: findPeak_def smallDetector_def minPeriod_def maxPeriod_def scanLoop.simps
        scanStep_def arr_get_def Let_def)
  have r: "findFundamentalFrequencyWithConfidence smallDetector ?cs =
           Some (Fin (100 / 3), Fin 0.352)"
    unfolding findFundamentalFrequencyWithConfidence_def p
    by (simp add: Let_def smallDetector_def
        parabolicInterpolation_def arr_get_def strict_eq_def calculateConfidence_def
        calculateConsistencyBonus_fraction harmonicFraction_def harmonicChecked_def)
  show ?thesis
    using findFundamental_reads_in_bounds [OF c, of ?cs "Fin 0.8" 3 "Fin 0"] c m p r by simp
qed

section \<open>TunerEngine on a frequency that is not positive\<close>

lemma guitarNotes_eq: "guitarNotes = GUITAR_TUNING"
  by (simp add: guitarNotes_def GUITAR_TUNING_def)



section \<open>Rounded arithmetic without rounding\<close>

text \<open>With the record \<open>exact\<close> the rounded functions are the functions of the sections above.\<close>

lemma rnd_Fin [simp]: "rnd Fin x = x"
  by (cases x) simp_all

lemma exact_sel [simp]:
  "dbl exact = Fin" "sgl exact = Fin" "log2_of exact = (\<lambda>a. Fin (log 2 a))"
  by (simp_all add: exact_def)

lemma exact_ops [simp]:
  "fadd exact x y = x + y" "fsub exact x y = x - y" "fmul exact x y = x * y"
  "fdiv exact x y = x / y" "f32_set exact xs i v = arr_set xs i v"
  by (simp_all add: fadd_def fsub_def fmul_def fdiv_def f32_set_def)

lemma lowPassLoop_fp_exact:
  "lowPassLoop_fp exact alpha buffer filtered i = lowPassLoop alpha buffer filtered i"
proof (induction alpha buffer filtered i rule: lowPassLoop.induct)
  case (1 alpha buffer filtered i)
  then show ?case
    by (subst lowPassLoop_fp.simps, subst lowPassLoop.simps) simp
qed

lemma removeMeanLoop_fp_exact:
  "removeMeanLoop_fp exact mean filtered i = removeMeanLoop mean filtered i"
proof (induction mean filtered i rule: removeMeanLoop.induct)
  case (1 mean filtered i)
  then show ?case
    by (subst removeMeanLoop_fp.simps, subst removeMeanLoop.simps) simp
qed

lemma reduce_sum_fp_exact: "reduce_sum_fp exact xs = reduce_sum xs"
  by (simp add: reduce_sum_fp_def reduce_sum_def)

lemma applyGuitarFrequencyFilter_fp_exact:
  "applyGuitarFrequencyFilter_fp exact buffer = applyGuitarFrequencyFilter buffer"
  by (simp add: applyGuitarFrequencyFilter_fp_def applyGuitarFrequencyFilter_def Let_def
      lowPassLoop_fp_exact removeMeanLoop_fp_exact reduce_sum_fp_exact)

lemma centerLoop_fp_exact:
  "centerLoop_fp exact buffer mean centeredBuffer i = centerLoop buffer mean centeredBuffer i"
proof (induction buffer mean centeredBuffer i rule: centerLoop.induct)
  case (1 buffer mean centeredBuffer i)
  then show ?case
    by (subst centerLoop_fp.simps, subst centerLoop.simps) simp
qed

lemma sumSquaresLoop_fp_exact:
  "sumSquaresLoop_fp exact c n acc i = sumSquaresLoop c n acc i"
proof (induction c n acc i rule: sumSquaresLoop.induct)
  case (1 c n acc i)
  then show ?case
    by (subst sumSquaresLoop_fp.simps, subst sumSquaresLoop.simps) simp
qed

lemma lagSumLoop_fp_exact:
  "lagSumLoop_fp exact c lag m acc i = lagSumLoop c lag m acc i"
proof (induction c lag m acc i rule: lagSumLoop.induct)
  case (1 c lag m acc i)
  then show ?case
    by (subst lagSumLoop_fp.simps, subst lagSumLoop.simps) simp
qed

lemma lagLoop_fp_exact:
  "lagLoop_fp exact c n ss correlations lag = lagLoop c n ss correlations lag"
proof (induction c n ss correlations lag rule: lagLoop.induct)
  case (1 c n ss correlations lag)
  then show ?case
    by (subst lagLoop_fp.simps, subst lagLoop.simps)
      (simp add: Let_def lagSumLoop_fp_exact)
qed

lemma autocorrelate_fp_exact: "autocorrelate_fp exact buffer = autocorrelate buffer"
  by (simp add: autocorrelate_fp_def autocorrelate_def Let_def centerLoop_fp_exact
      sumSquaresLoop_fp_exact lagLoop_fp_exact reduce_sum_fp_exact)

lemma parabolicInterpolation_fp_exact:
  "parabolicInterpolation_fp exact this correlations peakIndex =
     parabolicInterpolation this correlations peakIndex"
  by (simp add: parabolicInterpolation_fp_def parabolicInterpolation_def Let_def)

lemma Math_log2_fp_exact: "Math_log2_fp exact x = Math_log2 x"
  by (cases x) simp_all

lemma closestLoop_fp_exact:
  "closestLoop_fp exact freq (map (\<lambda>noteData. (fst noteData, Fin (snd noteData))) ns)
     ((fst cn, Fin (snd cn)), d) =
   (\<lambda>r. ((fst (fst r), Fin (snd (fst r))), snd r)) (closestLoop freq ns (cn, d))"
  by (induction ns arbitrary: cn d) (simp_all add: Let_def)

lemma getClosestGuitarNote_fp_exact:
  "getClosestGuitarNote_fp exact freq = getClosestGuitarNote freq"
proof -
  have g: "guitarNotes_fp exact = map (\<lambda>noteData. (fst noteData, Fin (snd noteData))) guitarNotes"
    by (simp add: guitarNotes_fp_def)
  have ne: "guitarNotes \<noteq> []"
    by (simp add: guitarNotes_eq GUITAR_TUNING_def)
  have h: "hd (guitarNotes_fp exact) = (fst (hd guitarNotes), Fin (snd (hd guitarNotes)))"
    unfolding g using ne by (simp add: hd_map)
  show ?thesis
    unfolding getClosestGuitarNote_fp_def getClosestGuitarNote_def Let_def h
    unfolding g by (simp add: closestLoop_fp_exact)
qed

lemma analyzeNote_fp_exact: "analyzeNote_fp exact freq conf = analyzeNote freq conf"
proof -
  have t: "tuningOf_fp exact n = tuningOf n" for n
    by (simp add: tuningOf_fp_def tuningOf_def split: option.splits)
  show ?thesis
    by (simp add: analyzeNote_fp_def analyzeNote_def Let_def getClosestGuitarNote_fp_exact t
        calculateCentsDifference_fp_def calculateCentsDifference_def Math_log2_fp_exact)
qed

section \<open>The loops of the rounded functions\<close>

lemma length_f32_set [simp]: "length (f32_set ar xs i v) = length xs"
  by (simp add: f32_set_def)

lemma f32_set_nat: "k < length xs \<Longrightarrow> f32_set ar xs (int k) v = xs[k := rnd (sgl ar) v]"
  by (simp add: f32_set_def arr_set_nat)

lemma lowPassLoop_fp_spec:
  assumes "length filtered = length x" "1 \<le> k" "k \<le> length x"
    and "\<forall>j<k. filtered ! j = lowpass_fp ar x j"
  shows "lowPassLoop_fp ar (dbl ar 0.8) x filtered (int k) = map (lowpass_fp ar x) [0..<length x]"
  using assms
proof (induction "length x - k" arbitrary: k filtered)
  case 0
  then have k: "k = length x" by simp
  have "lowPassLoop_fp ar (dbl ar 0.8) x filtered (int k) = filtered"
    by (subst lowPassLoop_fp.simps) (simp add: k)
  moreover have "filtered = map (lowpass_fp ar x) [0..<length x]"
    using 0 k by (intro nth_equalityI) simp_all
  ultimately show ?case by simp
next
  case (Suc d)
  then have lt: "k < length x" by simp
  obtain k' where k': "k = Suc k'"
    using Suc.prems(2) by (cases k) simp_all
  let ?v = "fadd ar (fmul ar (dbl ar 0.8) (arr_get filtered (int k - 1)))
                    (fmul ar (fsub ar (Fin 1) (dbl ar 0.8)) (arr_get x (int k)))"
  have prev: "arr_get filtered (int k - 1) = lowpass_fp ar x k'"
    using Suc.prems lt k' arr_get_nat [of k' filtered] by simp
  have cur: "arr_get x (int k) = x ! k"
    using lt by (simp add: arr_get_nat)
  have v: "rnd (sgl ar) ?v = lowpass_fp ar x k"
    unfolding prev cur by (simp add: k')
  have suc: "int k + 1 = int (Suc k)" by simp
  have "lowPassLoop_fp ar (dbl ar 0.8) x filtered (int k) =
        lowPassLoop_fp ar (dbl ar 0.8) x (f32_set ar filtered (int k) ?v) (int k + 1)"
    using lt by (subst lowPassLoop_fp.simps) simp
  then have step: "lowPassLoop_fp ar (dbl ar 0.8) x filtered (int k) =
              lowPassLoop_fp ar (dbl ar 0.8) x (filtered[k := lowpass_fp ar x k]) (int (Suc k))"
    unfolding suc using lt Suc.prems(1) by (simp only: f32_set_nat v)
  have "lowPassLoop_fp ar (dbl ar 0.8) x (filtered[k := lowpass_fp ar x k]) (int (Suc k)) =
        map (lowpass_fp ar x) [0..<length x]"
  proof (rule Suc.hyps(1))
    show "d = length x - Suc k" using Suc.hyps(2) by simp
    show "length (filtered[k := lowpass_fp ar x k]) = length x" using Suc.prems(1) by simp
    show "1 \<le> Suc k" by simp
    show "Suc k \<le> length x" using lt by simp
    show "\<forall>j<Suc k. filtered[k := lowpass_fp ar x k] ! j = lowpass_fp ar x j"
      using Suc.prems(1,4) lt by (auto simp: nth_list_update less_Suc_eq)
  qed
  with step show ?case by simp
qed

lemma removeMeanLoop_fp_map:
  "k \<le> length filtered \<Longrightarrow>
     removeMeanLoop_fp ar mean filtered (int k) =
       take k filtered @ map (\<lambda>v. rnd (sgl ar) (fsub ar v mean)) (drop k filtered)"
proof (induction "length filtered - k" arbitrary: k filtered)
  case 0
  then show ?case by (subst removeMeanLoop_fp.simps) simp
next
  case (Suc d)
  then have lt: "k < length filtered" by simp
  let ?f = "filtered[k := rnd (sgl ar) (fsub ar (filtered ! k) mean)]"
  have suc: "int k + 1 = int (Suc k)" by simp
  have "removeMeanLoop_fp ar mean filtered (int k) =
        removeMeanLoop_fp ar mean
          (f32_set ar filtered (int k) (fsub ar (arr_get filtered (int k)) mean)) (int k + 1)"
    using lt by (subst removeMeanLoop_fp.simps) simp
  then have step: "removeMeanLoop_fp ar mean filtered (int k) =
                   removeMeanLoop_fp ar mean ?f (int (Suc k))"
    unfolding suc using lt by (simp only: f32_set_nat arr_get_nat)
  have "removeMeanLoop_fp ar mean ?f (int (Suc k)) =
        take (Suc k) ?f @ map (\<lambda>v. rnd (sgl ar) (fsub ar v mean)) (drop (Suc k) ?f)"
    using Suc.hyps(2) lt by (intro Suc.hyps(1)) simp_all
  also have "\<dots> = take k filtered @ map (\<lambda>v. rnd (sgl ar) (fsub ar v mean)) (drop k filtered)"
    using lt by (simp add: take_Suc_conv_app_nth Cons_nth_drop_Suc [symmetric])
  finally show ?case using step by simp
qed

lemma length_lowPassLoop_fp [simp]:
  "length (lowPassLoop_fp ar alpha buffer filtered i) = length filtered"
  by (induction ar alpha buffer filtered i rule: lowPassLoop_fp.induct)
    (subst lowPassLoop_fp.simps, simp)

lemma length_removeMeanLoop_fp [simp]:
  "length (removeMeanLoop_fp ar mean filtered i) = length filtered"
  by (induction ar mean filtered i rule: removeMeanLoop_fp.induct)
    (subst removeMeanLoop_fp.simps, simp)

lemma applyGuitarFrequencyFilter_fp_eq:
  "applyGuitarFrequencyFilter_fp ar x = spec_filter_fp ar x"
proof (cases "x = []")
  case True
  then show ?thesis
    by (simp add: applyGuitarFrequencyFilter_fp_def spec_filter_fp_def new_Float32Array_def
        f32_set_def arr_set_def Let_def lowPassLoop_fp.simps removeMeanLoop_fp.simps)
next
  case False
  let ?n = "length x"
  let ?y = "map (lowpass_fp ar x) [0..<?n]"
  have pos: "0 < ?n" using False by simp
  have init: "f32_set ar (new_Float32Array ?n) 0 (arr_get x 0) =
              (replicate ?n (Fin 0))[0 := rnd (sgl ar) (x ! 0)]"
    using pos f32_set_nat [of 0 "new_Float32Array ?n" ar] arr_get_nat [of 0 x]
    by (simp add: new_Float32Array_def)
  have lp: "lowPassLoop_fp ar (dbl ar 0.8) x ((replicate ?n (Fin 0))[0 := rnd (sgl ar) (x ! 0)]) (int 1) = ?y"
    using pos by (intro lowPassLoop_fp_spec) (simp_all add: Suc_le_eq)
  have rm: "removeMeanLoop_fp ar m ?y (int 0) = map (\<lambda>v. rnd (sgl ar) (fsub ar v m)) ?y" for m
    by (subst removeMeanLoop_fp_map) simp_all
  have fold: "reduce_sum_fp ar ?y = foldl (fadd ar) (Fin 0) ?y"
    by (simp add: reduce_sum_fp_def)
  show ?thesis
    using lp rm
    unfolding applyGuitarFrequencyFilter_fp_def spec_filter_fp_def Let_def init
    by (simp add: reduce_sum_fp_def)
qed





lemma length_centered_fp [simp]: "length (centered_fp ar xs) = length xs"
  by (simp add: centered_fp_def)


text \<open>The scan of the table keeps an entry to which no scanned entry is strictly nearer.\<close>

lemma number_less_irrefl: "\<not> x < (x::number)"
  by (cases x) auto

lemma number_less_asym: "x < y \<Longrightarrow> \<not> y < (x::number)"
  using number_less_trans [of x y x] number_less_irrefl [of x] by blast

lemma closestLoop_fp_nearest:
  "closestLoop_fp ar freq ns (cn, \<bar>fsub ar freq (snd cn)\<bar>) = (r, d) \<Longrightarrow>
     d = \<bar>fsub ar freq (snd r)\<bar> \<and> (r = cn \<or> r \<in> set ns) \<and>
     (d = \<bar>fsub ar freq (snd cn)\<bar> \<or> d < \<bar>fsub ar freq (snd cn)\<bar>) \<and>
     (\<forall>p \<in> set ns. \<not> \<bar>fsub ar freq (snd p)\<bar> < d)"
proof (induction ns arbitrary: cn)
  case Nil
  then show ?case by auto
next
  case (Cons a ns)
  show ?case
  proof (cases "\<bar>fsub ar freq (snd a)\<bar> < \<bar>fsub ar freq (snd cn)\<bar>")
    case True
    with Cons.prems have "closestLoop_fp ar freq ns (a, \<bar>fsub ar freq (snd a)\<bar>) = (r, d)"
      by (simp add: Let_def)
    from Cons.IH [OF this]
    have d: "d = \<bar>fsub ar freq (snd r)\<bar>" and mem: "r = a \<or> r \<in> set ns"
      and le: "d = \<bar>fsub ar freq (snd a)\<bar> \<or> d < \<bar>fsub ar freq (snd a)\<bar>"
      and rest: "\<forall>p \<in> set ns. \<not> \<bar>fsub ar freq (snd p)\<bar> < d"
      by auto
    have lt: "d < \<bar>fsub ar freq (snd cn)\<bar>"
      using le True by (auto intro: number_less_trans)
    have "\<not> \<bar>fsub ar freq (snd a)\<bar> < d"
      using le by (auto simp: number_less_irrefl dest: number_less_asym)
    with d mem lt rest show ?thesis by auto
  next
    case False
    with Cons.prems have "closestLoop_fp ar freq ns (cn, \<bar>fsub ar freq (snd cn)\<bar>) = (r, d)"
      by (simp add: Let_def)
    from Cons.IH [OF this]
    have d: "d = \<bar>fsub ar freq (snd r)\<bar>" and mem: "r = cn \<or> r \<in> set ns"
      and le: "d = \<bar>fsub ar freq (snd cn)\<bar> \<or> d < \<bar>fsub ar freq (snd cn)\<bar>"
      and rest: "\<forall>p \<in> set ns. \<not> \<bar>fsub ar freq (snd p)\<bar> < d"
      by auto
    have "\<not> \<bar>fsub ar freq (snd a)\<bar> < d"
      using le False by (auto dest: number_less_trans)
    with d mem le rest show ?thesis by auto
  qed
qed

lemma guitarNotes_fp_eq:
  "guitarNotes_fp ar = map (\<lambda>noteData. (fst noteData, dbl ar (snd noteData))) GUITAR_TUNING"
  by (simp add: guitarNotes_fp_def guitarNotes_eq)

lemma tuningOf_fp_table: "(n, ref) \<in> set GUITAR_TUNING \<Longrightarrow> tuningOf_fp ar n = dbl ar ref"
proof -
  assume a: "(n, ref) \<in> set GUITAR_TUNING"
  have "distinct (map fst GUITAR_TUNING)"
    by (simp add: GUITAR_TUNING_def)
  then have "map_of GUITAR_TUNING n = Some ref"
    using a by (rule map_of_is_SomeI)
  then show ?thesis
    by (simp add: tuningOf_fp_def)
qed

lemma getClosest_fp_in_table:
  "getClosestGuitarNote_fp ar freq \<in> fst ` set GUITAR_TUNING \<and>
   (\<forall>p \<in> set GUITAR_TUNING.
      \<not> \<bar>fsub ar freq (dbl ar (snd p))\<bar> <
        \<bar>fsub ar freq (tuningOf_fp ar (getClosestGuitarNote_fp ar freq))\<bar>)"
proof -
  let ?h = "hd (guitarNotes_fp ar)"
  obtain r d where rd:
    "closestLoop_fp ar freq (guitarNotes_fp ar) (?h, \<bar>fsub ar freq (snd ?h)\<bar>) = (r, d)"
    by (cases "closestLoop_fp ar freq (guitarNotes_fp ar) (?h, \<bar>fsub ar freq (snd ?h)\<bar>)") auto
  from closestLoop_fp_nearest [OF rd]
  have d: "d = \<bar>fsub ar freq (snd r)\<bar>"
    and mem: "r = ?h \<or> r \<in> set (guitarNotes_fp ar)"
    and nearest: "\<forall>p \<in> set (guitarNotes_fp ar). \<not> \<bar>fsub ar freq (snd p)\<bar> < d"
    by auto
  have "?h \<in> set (guitarNotes_fp ar)"
    by (simp add: guitarNotes_fp_eq GUITAR_TUNING_def)
  with mem have "r \<in> set (guitarNotes_fp ar)" by auto
  then obtain q where q: "q \<in> set GUITAR_TUNING" and r: "r = (fst q, dbl ar (snd q))"
    by (auto simp: guitarNotes_fp_eq)
  have n: "getClosestGuitarNote_fp ar freq = fst q"
    using rd r by (simp add: getClosestGuitarNote_fp_def Let_def)
  have t: "tuningOf_fp ar (fst q) = dbl ar (snd q)"
    using q tuningOf_fp_table [of "fst q" "snd q" ar] by simp
  have "\<not> \<bar>fsub ar freq (dbl ar (snd p))\<bar> < \<bar>fsub ar freq (dbl ar (snd q))\<bar>"
    if "p \<in> set GUITAR_TUNING" for p
  proof -
    have "(fst p, dbl ar (snd p)) \<in> set (guitarNotes_fp ar)"
      using that by (auto simp: guitarNotes_fp_eq)
    with nearest show ?thesis unfolding d r by fastforce
  qed
  then show ?thesis
    unfolding n t using q by auto
qed

lemma inTune_iff: "\<bar>Math_round x\<bar> \<le> Fin 5 \<longleftrightarrow> (\<exists>n::int. Math_round x = Fin (of_int n) \<and> \<bar>n\<bar> \<le> 5)"
proof (cases x)
  case (Fin a)
  have "\<bar>real_of_int \<lfloor>a + 1 / 2\<rfloor>\<bar> \<le> 5 \<longleftrightarrow> \<bar>\<lfloor>a + 1 / 2\<rfloor>\<bar> \<le> 5"
    by linarith
  then show ?thesis using Fin by auto
qed (simp_all add: less_eq_number_def)

section \<open>Rounding to nearest: values\<close>

text \<open>
  A rounding is computed from the binade \<open>2\<^sup>e \<le> \<bar>x\<bar> < 2\<^sup>e\<^sup>+\<^sup>1\<close> of the real and the integer
  nearest to its quotient by the spacing of the binade.
\<close>

lemma pow2_powr: "pow2 e = 2 powr (of_int e)"
proof (cases "0 \<le> e")
  case True
  then have "2 powr (of_int e) = (2::real) powr (real (nat e))" by simp
  also have "\<dots> = 2 ^ nat e" by (simp only: powr_realpow [of 2 "nat e"] zero_less_numeral)
  finally show ?thesis using True by (simp add: pow2_def)
next
  case False
  then have "2 powr (of_int e) = (2::real) powr (- real (nat (- e)))" by simp
  also have "\<dots> = 1 / 2 powr (real (nat (- e)))" by (simp only: powr_minus_divide)
  also have "\<dots> = 1 / 2 ^ nat (- e)" by (simp only: powr_realpow [of 2 "nat (- e)"] zero_less_numeral)
  finally show ?thesis using False by (simp add: pow2_def)
qed

lemma pow2_pos: "0 < pow2 e"
  by (simp add: pow2_def)

lemma floor_log2:
  assumes "pow2 e \<le> \<bar>x\<bar>" "\<bar>x\<bar> < pow2 (e + 1)"
  shows "\<lfloor>log 2 \<bar>x\<bar>\<rfloor> = e"
proof -
  have pos: "0 < \<bar>x\<bar>"
    using assms(1) pow2_pos [of e] by linarith
  have "of_int e \<le> log 2 \<bar>x\<bar>"
    using assms(1) pos by (simp add: pow2_powr le_log_iff)
  moreover have "log 2 \<bar>x\<bar> < of_int (e + 1)"
    using assms(2) pos by (simp add: pow2_powr log_less_iff)
  ultimately show ?thesis
    by (simp add: floor_eq_iff)
qed

lemma round_even_near: "\<bar>x - of_int n\<bar> < 1 / 2 \<Longrightarrow> round_even x = n"
proof -
  assume a: "\<bar>x - of_int n\<bar> < 1 / 2"
  consider "of_int n \<le> x" | "x < of_int n" by linarith
  then show ?thesis
  proof cases
    case 1
    then have "\<lfloor>x\<rfloor> = n" using a by (simp add: floor_eq_iff)
    then show ?thesis using a 1 by (simp add: round_even_def Let_def)
  next
    case 2
    then have f: "\<lfloor>x\<rfloor> = n - 1" using a by (simp add: floor_eq_iff)
    have "1 / 2 < x - of_int (n - 1)" using a 2 by simp
    then show ?thesis using f by (simp add: round_even_def Let_def)
  qed
qed

lemma round_even_tie:
  "x = of_int m + 1 / 2 \<Longrightarrow> round_even x = (if even m then m else m + 1)"
proof -
  assume x: "x = of_int m + 1 / 2"
  then have "\<lfloor>x\<rfloor> = m"
    by (simp add: floor_eq_iff)
  then show ?thesis
    using x by (simp add: round_even_def Let_def)
qed

lemma fl_near:
  assumes "pow2 e \<le> \<bar>x\<bar>" "\<bar>x\<bar> < pow2 (e + 1)" "emin \<le> e"
    and "\<bar>x / pow2 (e - int p + 1) - of_int n\<bar> < 1 / 2"
    and "y = of_int n * pow2 (e - int p + 1)"
    and "\<bar>y\<bar> < pow2 (emax + 1)"
  shows "fl p emin emax x = Fin y"
proof -
  have nz: "x \<noteq> 0"
    using assms(1) pow2_pos [of e] by auto
  have e: "max \<lfloor>log 2 \<bar>x\<bar>\<rfloor> emin = e"
    using floor_log2 [OF assms(1,2)] assms(3) by simp
  have r: "round_even (x / pow2 (e - int p + 1)) = n"
    using assms(4) by (rule round_even_near)
  show ?thesis
    using nz assms(6) unfolding fl_def e Let_def r assms(5) by simp
qed

lemma fl_rounded:
  assumes "pow2 e \<le> \<bar>x\<bar>" "\<bar>x\<bar> < pow2 (e + 1)" "emin \<le> e"
    and "round_even (x / pow2 (e - int p + 1)) = n"
    and "y = of_int n * pow2 (e - int p + 1)"
    and "\<bar>y\<bar> < pow2 (emax + 1)"
  shows "fl p emin emax x = Fin y"
proof -
  have nz: "x \<noteq> 0"
    using assms(1) pow2_pos [of e] by auto
  have e: "max \<lfloor>log 2 \<bar>x\<bar>\<rfloor> emin = e"
    using floor_log2 [OF assms(1,2)] assms(3) by simp
  show ?thesis
    using nz assms(6) unfolding fl_def e Let_def assms(4) assms(5) by simp
qed

lemma fl_overflow:
  assumes "pow2 e \<le> \<bar>x\<bar>" "\<bar>x\<bar> < pow2 (e + 1)" "emin \<le> e"
    and "\<bar>x / pow2 (e - int p + 1) - of_int n\<bar> < 1 / 2"
    and "pow2 (emax + 1) \<le> \<bar>of_int n * pow2 (e - int p + 1)\<bar>"
  shows "fl p emin emax x = (if 0 < x then PosInf else NegInf)"
proof -
  have nz: "x \<noteq> 0"
    using assms(1) pow2_pos [of e] by auto
  have e: "max \<lfloor>log 2 \<bar>x\<bar>\<rfloor> emin = e"
    using floor_log2 [OF assms(1,2)] assms(3) by simp
  have r: "round_even (x / pow2 (e - int p + 1)) = n"
    using assms(4) by (rule round_even_near)
  show ?thesis
    using nz assms(5) unfolding fl_def e Let_def r by simp
qed

lemma fl_subnormal:
  assumes "x \<noteq> 0" "\<bar>x\<bar> < pow2 emin"
    and "\<bar>x / pow2 (emin - int p + 1) - of_int n\<bar> < 1 / 2"
    and "y = of_int n * pow2 (emin - int p + 1)"
    and "\<bar>y\<bar> < pow2 (emax + 1)"
  shows "fl p emin emax x = Fin y"
proof -
  have "log 2 \<bar>x\<bar> < of_int emin"
    using assms(1,2) by (simp add: pow2_powr log_less_iff)
  then have "\<lfloor>log 2 \<bar>x\<bar>\<rfloor> < emin"
    by (simp add: floor_less_iff)
  then have e: "max \<lfloor>log 2 \<bar>x\<bar>\<rfloor> emin = emin"
    by simp
  have r: "round_even (x / pow2 (emin - int p + 1)) = n"
    using assms(3) by (rule round_even_near)
  show ?thesis
    using assms(1,5) unfolding fl_def e Let_def r assms(4) by simp
qed

lemma binary64_near:
  assumes "pow2 e \<le> \<bar>x\<bar>" "\<bar>x\<bar> < pow2 (e + 1)" "- 1022 \<le> e"
    and "\<bar>x / pow2 (e - 52) - of_int n\<bar> < 1 / 2"
    and "y = of_int n * pow2 (e - 52)"
    and "\<bar>y\<bar> < pow2 1024"
  shows "binary64 x = Fin y"
  unfolding binary64_def using assms by (intro fl_near [where e = e and n = n]) simp_all

lemma binary32_near:
  assumes "pow2 e \<le> \<bar>x\<bar>" "\<bar>x\<bar> < pow2 (e + 1)" "- 126 \<le> e"
    and "\<bar>x / pow2 (e - 23) - of_int n\<bar> < 1 / 2"
    and "y = of_int n * pow2 (e - 23)"
    and "\<bar>y\<bar> < pow2 128"
  shows "binary32 x = Fin y"
  unfolding binary32_def using assms by (intro fl_near [where e = e and n = n]) simp_all

lemma binary64_tie:
  assumes "pow2 e \<le> \<bar>x\<bar>" "\<bar>x\<bar> < pow2 (e + 1)" "- 1022 \<le> e"
    and "x / pow2 (e - 52) = of_int m + 1 / 2"
    and "y = of_int (if even m then m else m + 1) * pow2 (e - 52)"
    and "\<bar>y\<bar> < pow2 1024"
  shows "binary64 x = Fin y"
proof -
  have "round_even (x / pow2 (e - 52)) = (if even m then m else m + 1)"
    using assms(4) by (rule round_even_tie)
  then show ?thesis
    unfolding binary64_def using assms
    by (intro fl_rounded [where e = e and n = "if even m then m else m + 1"]) simp_all
qed

lemma binary64_subnormal:
  assumes "x \<noteq> 0" "\<bar>x\<bar> < pow2 (- 1022)"
    and "\<bar>x / pow2 (- 1074) - of_int n\<bar> < 1 / 2"
    and "y = of_int n * pow2 (- 1074)"
    and "\<bar>y\<bar> < pow2 1024"
  shows "binary64 x = Fin y"
  unfolding binary64_def using assms by (intro fl_subnormal [where n = n]) simp_all

lemma binary32_overflow:
  assumes "pow2 e \<le> \<bar>x\<bar>" "\<bar>x\<bar> < pow2 (e + 1)" "- 126 \<le> e"
    and "\<bar>x / pow2 (e - 23) - of_int n\<bar> < 1 / 2"
    and "pow2 128 \<le> \<bar>of_int n * pow2 (e - 23)\<bar>"
  shows "binary32 x = (if 0 < x then PosInf else NegInf)"
  unfolding binary32_def using assms by (intro fl_overflow [where e = e and n = n]) simp_all

lemma binary64_0 [simp]: "binary64 0 = Fin 0"
  by (simp add: binary64_def fl_def)

lemma binary32_0 [simp]: "binary32 0 = Fin 0"
  by (simp add: binary32_def fl_def)

lemma ieee_sel [simp]:
  "dbl ieee = binary64" "sgl ieee = binary32" "log2_of ieee = (\<lambda>a. binary64 (log 2 a))"
  by (simp_all add: ieee_def)

lemma fadd_ieee: "binary64 (a + b) = Fin y \<Longrightarrow> fadd ieee (Fin a) (Fin b) = Fin y"
  by (simp add: fadd_def)

lemma fsub_ieee: "binary64 (a - b) = Fin y \<Longrightarrow> fsub ieee (Fin a) (Fin b) = Fin y"
  by (simp add: fsub_def)

lemma fmul_ieee: "binary64 (a * b) = Fin y \<Longrightarrow> fmul ieee (Fin a) (Fin b) = Fin y"
  by (simp add: fmul_def)

lemma fdiv_ieee: "b \<noteq> 0 \<Longrightarrow> binary64 (a / b) = Fin y \<Longrightarrow> fdiv ieee (Fin a) (Fin b) = Fin y"
  by (simp add: fdiv_def)

text \<open>Bounds of a binary logarithm, from powers of the argument.\<close>

lemma ln2_ge_half: "1 / 2 < ln (2::real)"
proof -
  have "exp (1 / 2) * exp (1 / 2) = exp (1::real)"
    by (simp add: exp_add [symmetric])
  moreover have "exp (1::real) \<le> 3"
    by (rule exp_le)
  ultimately have "exp (1 / 2) * exp (1 / 2) < (2::real) * 2"
    by simp
  then have lt: "exp (1 / 2) * exp (1 / 2) < (4::real)"
    by simp
  have "exp (1 / 2) < (2::real)"
  proof (rule ccontr)
    assume "\<not> exp (1 / 2) < (2::real)"
    then have "2 \<le> exp (1 / 2 :: real)"
      by simp
    then have "2 * 2 \<le> exp (1 / 2 :: real) * exp (1 / 2)"
      by (intro mult_mono) simp_all
    with lt show False
      by simp
  qed
  then have "exp (1 / 2) < exp (ln (2::real))"
    by simp
  then show ?thesis
    by (simp only: exp_less_cancel_iff)
qed

lemma two_powr_ge: "0 \<le> t \<Longrightarrow> 1 + t / 2 \<le> 2 powr (t::real)"
proof -
  assume t: "0 \<le> t"
  have "t * (1 / 2) \<le> t * ln 2"
    using t ln2_ge_half by (intro mult_left_mono) simp_all
  then have "1 + t / 2 \<le> 1 + t * ln 2"
    by simp
  also have "\<dots> \<le> exp (t * ln 2)"
    by (rule exp_ge_add_one_self)
  also have "\<dots> = 2 powr t"
    by (simp add: powr_def)
  finally show ?thesis .
qed

lemma log2_lower:
  assumes "1 / 2 ^ k < (x::real)"
  shows "- real k < log 2 x"
proof -
  have "0 < 1 / (2::real) ^ k"
    by simp
  with assms have pos: "0 < x"
    by linarith
  have "2 powr (- real k) = 1 / 2 ^ k"
    by (simp add: powr_minus_divide powr_realpow)
  then show ?thesis
    using assms pos by (simp add: less_log_iff)
qed

lemma log2_upper:
  assumes "0 < (x::real)" "0 \<le> t" "x * 2 ^ k < 1 + t / 2"
  shows "log 2 x < - real k + t"
proof -
  have "x * 2 ^ k < 2 powr t"
    using assms(3) two_powr_ge [OF assms(2)] by linarith
  then have "x < 2 powr t / 2 ^ k"
    by (simp add: field_simps)
  also have "\<dots> = 2 powr (- real k + t)"
  proof -
    have "2 powr (- real k + t) = 2 powr (- real k) * 2 powr t"
      by (rule powr_add)
    moreover have "2 powr (- real k) = 1 / (2::real) ^ k"
      by (simp add: powr_minus_divide powr_realpow)
    ultimately show ?thesis
      by simp
  qed
  finally show ?thesis
    using assms(1) by (simp add: log_less_iff)
qed

lemma log2_le_upper:
  assumes "0 < (x::real)" "x \<le> 1 / 2 ^ k"
  shows "log 2 x \<le> - real k"
proof -
  have "2 powr (- real k) = 1 / 2 ^ k"
    by (simp add: powr_minus_divide powr_realpow)
  then show ?thesis
    using assms by (simp add: log_le_iff)
qed

lemma log2_lower_margin:
  assumes "0 \<le> t" "0 < (x::real)" "1 < (1 + t / 2) * (x * 2 ^ k)"
  shows "- real k - t < log 2 x"
proof -
  have "(1 + t / 2) * (x * 2 ^ k) \<le> 2 powr t * (x * 2 ^ k)"
    using two_powr_ge [OF assms(1)] assms(2) by (intro mult_right_mono) simp_all
  with assms(3) have "1 < 2 powr t * (x * 2 ^ k)"
    by linarith
  then have "1 / (2 powr t * 2 ^ k) < x"
    by (simp add: field_simps)
  moreover have "2 powr (- real k - t) = 1 / (2 powr t * 2 ^ k)"
  proof -
    have "2 powr (- real k - t) = 2 powr (- real k) * 2 powr (- t)"
      using powr_add [of 2 "- real k" "- t"] by simp
    moreover have "2 powr (- real k) = 1 / (2::real) ^ k"
      by (simp add: powr_minus_divide powr_realpow)
    moreover have "2 powr (- t) = 1 / 2 powr t"
      by (simp add: powr_minus_divide)
    ultimately show ?thesis
      by simp
  qed
  ultimately show ?thesis
    using assms(2) by (simp add: less_log_iff)
qed

subsection \<open>The table of reference pitches in binary64\<close>

lemma double_E2:
  "binary64 (8241 / 100) = Fin (2899544103840645 / 35184372088832)"
  by (rule binary64_near [where e = "6" and n = "5799088207681290"])
    (simp_all add: pow2_def)

lemma double_A2:
  "binary64 110 = Fin 110"
  by (rule binary64_near [where e = "6" and n = "7740561859543040"])
    (simp_all add: pow2_def)

lemma double_D3:
  "binary64 (14683 / 100) = Fin (5166121353803203 / 35184372088832)"
  by (rule binary64_near [where e = "7" and n = "5166121353803203"])
    (simp_all add: pow2_def)

lemma double_G3:
  "binary64 196 = Fin 196"
  by (rule binary64_near [where e = "7" and n = "6896136929411072"])
    (simp_all add: pow2_def)

lemma double_B3:
  "binary64 (12347 / 50) = Fin (4344214421808087 / 17592186044416)"
  by (rule binary64_near [where e = "7" and n = "8688428843616174"])
    (simp_all add: pow2_def)

lemma double_E4:
  "binary64 (32963 / 100) = Fin (2899456142910423 / 8796093022208)"
  by (rule binary64_near [where e = "8" and n = "5798912285820846"])
    (simp_all add: pow2_def)

lemma guitarNotes_ieee:
  "guitarNotes_fp ieee =
     [(''E2'', Fin (2899544103840645 / 35184372088832)), (''A2'', Fin 110),
      (''D3'', Fin (5166121353803203 / 35184372088832)), (''G3'', Fin 196),
      (''B3'', Fin (4344214421808087 / 17592186044416)),
      (''E4'', Fin (2899456142910423 / 8796093022208))]"
  by (simp add: guitarNotes_fp_eq GUITAR_TUNING_def double_E2 double_A2 double_D3 double_G3
      double_B3 double_E4)

lemma guitarNotes_ieee_sorted: "sorted_wrt (\<lambda>a b. snd a < snd b) (guitarNotes_fp ieee)"
  by (simp add: guitarNotes_ieee)

lemma tuningOf_E2: "tuningOf_fp ieee ''E2'' = Fin (2899544103840645 / 35184372088832)"
  by (simp add: tuningOf_fp_def GUITAR_TUNING_def double_E2)

lemma tuningOf_A2: "tuningOf_fp ieee ''A2'' = Fin 110"
  by (simp add: tuningOf_fp_def GUITAR_TUNING_def double_A2)

subsection \<open>The frequency 110 Hz\<close>

lemma A2_diff_E2:
  "fsub ieee (Fin 110) (Fin (2899544103840645 / 35184372088832)) =
   Fin (970736825930875 / 35184372088832)"
  by (rule fsub_ieee, rule binary64_near [where e = "4" and n = "7765894607447000"])
    (simp_all add: pow2_def)

lemma A2_diff_A2:
  "fsub ieee (Fin 110) (Fin 110) = Fin 0"
  by (simp add: fsub_def)

lemma A2_diff_D3:
  "fsub ieee (Fin 110) (Fin (5166121353803203 / 35184372088832)) =
   Fin (- (1295840424031683 / 35184372088832))"
  by (rule fsub_ieee, rule binary64_near [where e = "5" and n = "- 5183361696126732"])
    (simp_all add: pow2_def)

lemma A2_diff_G3:
  "fsub ieee (Fin 110) (Fin 196) = Fin (- 86)"
  by (rule fsub_ieee, rule binary64_near [where e = "6" and n = "- 6051711999279104"])
    (simp_all add: pow2_def)

lemma A2_diff_B3:
  "fsub ieee (Fin 110) (Fin (4344214421808087 / 17592186044416)) =
   Fin (- (2409073956922327 / 17592186044416))"
  by (rule fsub_ieee, rule binary64_near [where e = "7" and n = "- 4818147913844654"])
    (simp_all add: pow2_def)

lemma A2_diff_E4:
  "fsub ieee (Fin 110) (Fin (2899456142910423 / 8796093022208)) =
   Fin (- (1931885910467543 / 8796093022208))"
  by (rule fsub_ieee, rule binary64_near [where e = "7" and n = "- 7727543641870172"])
    (simp_all add: pow2_def)

lemma A2_ratio:
  "fdiv ieee (Fin 110) (Fin 110) = Fin 1"
  by (rule fdiv_ieee, simp, rule binary64_near [where e = "0" and n = "4503599627370496"])
    (simp_all add: pow2_def)

lemma closest_A2: "getClosestGuitarNote_fp ieee (Fin 110) = ''A2''"
  unfolding getClosestGuitarNote_fp_def guitarNotes_ieee
  by (simp add: Let_def A2_diff_E2 A2_diff_A2 A2_diff_D3 A2_diff_G3 A2_diff_B3 A2_diff_E4)

subsection \<open>The frequency 64.93829072267046 Hz\<close>

text \<open>
  The double \<open>4569625967198369 / 2\<^sup>4\<^sup>6\<close>. Its quotient by the double of 82.41 rounds to
  \<open>7097586746770917 / 2\<^sup>5\<^sup>3\<close>, whose binary logarithm lies less than \<open>2\<^sup>-\<^sup>5\<^sup>5\<close> above
  \<open>-11/32\<close> and rounds to it.
\<close>

lemma tie_diff_E2:
  "fsub ieee (Fin (4569625967198369 / 70368744177664)) (Fin (2899544103840645 / 35184372088832)) =
   Fin (- (1229462240482921 / 70368744177664))"
  by (rule fsub_ieee, rule binary64_near [where e = "4" and n = "- 4917848961931684"])
    (simp_all add: pow2_def)

lemma tie_diff_A2:
  "fsub ieee (Fin (4569625967198369 / 70368744177664)) (Fin 110) =
   Fin (- (3170935892344671 / 70368744177664))"
  by (rule fsub_ieee, rule binary64_near [where e = "5" and n = "- 6341871784689342"])
    (simp_all add: pow2_def)

lemma tie_diff_D3:
  "fsub ieee (Fin (4569625967198369 / 70368744177664)) (Fin (5166121353803203 / 35184372088832)) =
   Fin (- (5762616740408037 / 70368744177664))"
  by (rule fsub_ieee, rule binary64_near [where e = "6" and n = "- 5762616740408037"])
    (simp_all add: pow2_def)

lemma tie_diff_G3:
  "fsub ieee (Fin (4569625967198369 / 70368744177664)) (Fin 196) =
   Fin (- (288207746613243 / 2199023255552))"
  by (rule fsub_ieee, rule binary64_tie [where e = "7" and m = "- 4611323945811888"])
    (simp_all add: pow2_def)

lemma tie_diff_B3:
  "fsub ieee (Fin (4569625967198369 / 70368744177664)) (Fin (4344214421808087 / 17592186044416)) =
   Fin (- (3201807930008495 / 17592186044416))"
  by (rule fsub_ieee, rule binary64_tie [where e = "7" and m = "- 6403615860016990"])
    (simp_all add: pow2_def)

lemma tie_diff_E4:
  "fsub ieee (Fin (4569625967198369 / 70368744177664)) (Fin (2899456142910423 / 8796093022208)) =
   Fin (- (2328252897010627 / 8796093022208))"
  by (rule fsub_ieee, rule binary64_near [where e = "8" and n = "- 4656505794021254"])
    (simp_all add: pow2_def)

lemma tie_ratio:
  "fdiv ieee (Fin (4569625967198369 / 70368744177664)) (Fin (2899544103840645 / 35184372088832)) =
   Fin (7097586746770917 / 9007199254740992)"
  by (rule fdiv_ieee, simp, rule binary64_near [where e = "- 1" and n = "7097586746770917"])
    (simp_all add: pow2_def)

lemma tie_scaled:
  "fmul ieee (Fin 1200) (Fin (- (11 / 32))) = Fin (- (825 / 2))"
  by (rule fmul_ieee, rule binary64_near [where e = "8" and n = "- 7256776743321600"])
    (simp_all add: pow2_def)

lemma log2_ratio_bounds:
  "- (11 / 32) < log 2 (7097586746770917 / 9007199254740992) \<and>
   log 2 (7097586746770917 / 9007199254740992) < - (11 / 32) + 1 / 2 ^ 55"
proof -
  let ?r = "7097586746770917 / 9007199254740992 :: real"
  have l32: "log 2 (?r ^ 32) = 32 * log 2 ?r"
    by (subst log_nat_power) simp_all
  have "1 / 2 ^ 11 < ?r ^ 32"
    by (simp add: power_divide)
  then have "- real 11 < log 2 (?r ^ 32)"
    by (rule log2_lower)
  then have lower: "- 11 < 32 * log 2 ?r"
    unfolding l32 by simp
  have "?r ^ 32 * 2 ^ 11 < 1 + (1 / 2 ^ 50) / 2"
    by (simp add: power_divide)
  then have "log 2 (?r ^ 32) < - real 11 + 1 / 2 ^ 50"
    by (intro log2_upper) simp_all
  then have upper: "32 * log 2 ?r < - 11 + 1 / 2 ^ 50"
    unfolding l32 by simp
  show ?thesis
    using lower upper by simp
qed

lemma log2_ratio:
  "binary64 (log 2 (7097586746770917 / 9007199254740992)) = Fin (- (11 / 32))"
proof -
  let ?x = "log 2 (7097586746770917 / 9007199254740992) :: real"
  have b: "- (11 / 32) < ?x" "?x < - (11 / 32) + 1 / 2 ^ 55"
    using log2_ratio_bounds by simp_all
  show ?thesis
  proof (rule binary64_near [where e = "- 2" and n = "- 6192449487634432"])
    show "pow2 (- 2) \<le> \<bar>?x\<bar>"
      using b by (simp add: pow2_def)
    show "\<bar>?x\<bar> < pow2 (- 2 + 1)"
      using b by (simp add: pow2_def)
    show "- 1022 \<le> (- 2 :: int)"
      by simp
    show "\<bar>?x / pow2 (- 2 - 52) - of_int (- 6192449487634432)\<bar> < 1 / 2"
      using b by (simp add: pow2_def)
    show "- (11 / 32) = of_int (- 6192449487634432) * pow2 (- 2 - 52)"
      by (simp add: pow2_def)
    show "\<bar>- (11 / 32) :: real\<bar> < pow2 1024"
      by (simp add: pow2_def)
  qed
qed

lemma closest_tie:
  "getClosestGuitarNote_fp ieee (Fin (4569625967198369 / 70368744177664)) = ''E2''"
  unfolding getClosestGuitarNote_fp_def guitarNotes_ieee
  by (simp add: Let_def tie_diff_E2 tie_diff_A2 tie_diff_D3 tie_diff_G3 tie_diff_B3 tie_diff_E4)

lemma cents_tie:
  "calculateCentsDifference_fp ieee (Fin (4569625967198369 / 70368744177664))
     (Fin (2899544103840645 / 35184372088832)) = Fin (- 412)"
  unfolding calculateCentsDifference_fp_def tie_ratio
  by (simp add: log2_ratio tie_scaled)

lemma exact_cents_tie:
  "round_half_away (1200 * log 2 (4569625967198369 / 70368744177664 / 82.41)) = - 413"
proof -
  let ?r = "4569625967198369 / 70368744177664 / 82.41 :: real"
  have l32: "log 2 (?r ^ 32) = 32 * log 2 ?r"
    by (subst log_nat_power) simp_all
  have "?r ^ 32 \<le> 1 / 2 ^ 11"
    by (simp add: power_divide)
  then have "log 2 (?r ^ 32) \<le> - real 11"
    by (intro log2_le_upper) simp_all
  then have upper: "32 * log 2 ?r \<le> - 11"
    unfolding l32 by simp
  have "1 < (1 + (2 / 75) / 2) * (?r ^ 32 * 2 ^ 11)"
    by (simp add: power_divide)
  then have "- real 11 - 2 / 75 < log 2 (?r ^ 32)"
    by (intro log2_lower_margin) simp_all
  then have lower: "- 11 - 2 / 75 < 32 * log 2 ?r"
    unfolding l32 by simp
  have neg: "\<not> 0 \<le> 1200 * log 2 ?r"
    using upper by simp
  have "\<lfloor>- (1200 * log 2 ?r) + 1 / 2\<rfloor> = 413"
    using upper lower by (simp add: floor_eq_iff)
  then show ?thesis
    unfolding round_half_away_def if_not_P [OF neg] by simp
qed

subsection \<open>The least positive double\<close>

lemma least_diff_E2:
  "fsub ieee (Fin (1 / 2 ^ 1074)) (Fin (2899544103840645 / 35184372088832)) =
   Fin (- (2899544103840645 / 35184372088832))"
  by (rule fsub_ieee, rule binary64_near [where e = "6" and n = "- 5799088207681290"])
    (simp_all add: pow2_def)

lemma least_diff_A2:
  "fsub ieee (Fin (1 / 2 ^ 1074)) (Fin 110) = Fin (- 110)"
  by (rule fsub_ieee, rule binary64_near [where e = "6" and n = "- 7740561859543040"])
    (simp_all add: pow2_def)

lemma least_diff_D3:
  "fsub ieee (Fin (1 / 2 ^ 1074)) (Fin (5166121353803203 / 35184372088832)) =
   Fin (- (5166121353803203 / 35184372088832))"
  by (rule fsub_ieee, rule binary64_near [where e = "7" and n = "- 5166121353803203"])
    (simp_all add: pow2_def)

lemma least_diff_G3:
  "fsub ieee (Fin (1 / 2 ^ 1074)) (Fin 196) = Fin (- 196)"
  by (rule fsub_ieee, rule binary64_near [where e = "7" and n = "- 6896136929411072"])
    (simp_all add: pow2_def)

lemma least_diff_B3:
  "fsub ieee (Fin (1 / 2 ^ 1074)) (Fin (4344214421808087 / 17592186044416)) =
   Fin (- (4344214421808087 / 17592186044416))"
  by (rule fsub_ieee, rule binary64_near [where e = "7" and n = "- 8688428843616174"])
    (simp_all add: pow2_def)

lemma least_diff_E4:
  "fsub ieee (Fin (1 / 2 ^ 1074)) (Fin (2899456142910423 / 8796093022208)) =
   Fin (- (2899456142910423 / 8796093022208))"
  by (rule fsub_ieee, rule binary64_near [where e = "8" and n = "- 5798912285820846"])
    (simp_all add: pow2_def)

lemma least_ratio:
  "fdiv ieee (Fin (1 / 2 ^ 1074)) (Fin (2899544103840645 / 35184372088832)) = Fin 0"
  by (rule fdiv_ieee, simp, rule binary64_subnormal [where n = "0"])
    (simp_all add: pow2_def)

lemma closest_least: "getClosestGuitarNote_fp ieee (Fin (1 / 2 ^ 1074)) = ''E2''"
  unfolding getClosestGuitarNote_fp_def guitarNotes_ieee Let_def list.sel closestLoop_fp.simps
    snd_conv least_diff_E2 least_diff_A2 least_diff_D3 least_diff_G3 least_diff_B3 least_diff_E4
  by simp

lemmas rounded_ops = fadd_def fsub_def fmul_def fdiv_def inf_of_sign_def

section \<open>The preprocessing filter in the arithmetic of the program\<close>

text \<open>
  C6 (as amended). In the arithmetic of the program, whatever its roundings to double and
  to single are, the filter returns for every frame \<open>x\<close> a frame of the same length: the
  low-pass \<open>y[0] = x[0]\<close>, \<open>y[i] = \<alpha> \<sqdot> y[i-1] + (1 - \<alpha>) \<sqdot> x[i]\<close> with \<open>\<alpha>\<close> the double of 0.8,
  each operation rounded to a double and each sample stored as a single, followed by the
  subtraction of the mean of \<open>y\<close> from every sample. On the empty frame it is the identity;
  on a frame of one sample that is a single (and 0 being a single) it returns the single
  sample 0.
\<close>

theorem applyGuitarFrequencyFilter_rounded:
  "length (applyGuitarFrequencyFilter_fp ar x) = length x \<and>
   applyGuitarFrequencyFilter_fp ar x = spec_filter_fp ar x \<and>
   applyGuitarFrequencyFilter_fp ar [] = [] \<and>
   (sgl ar a = Fin a \<and> dbl ar a = Fin a \<and> dbl ar 0 = Fin 0 \<and> sgl ar 0 = Fin 0 \<longrightarrow>
      applyGuitarFrequencyFilter_fp ar [Fin a] = [Fin 0])"
proof -
  have l: "length (applyGuitarFrequencyFilter_fp ar x) = length x"
    by (simp add: applyGuitarFrequencyFilter_fp_eq spec_filter_fp_def Let_def)
  have e: "applyGuitarFrequencyFilter_fp ar [] = []"
    by (simp add: applyGuitarFrequencyFilter_fp_eq spec_filter_fp_def)
  have o: "applyGuitarFrequencyFilter_fp ar [Fin a] = [Fin 0]"
    if "sgl ar a = Fin a \<and> dbl ar a = Fin a \<and> dbl ar 0 = Fin 0 \<and> sgl ar 0 = Fin 0"
    using that
    by (simp add: applyGuitarFrequencyFilter_fp_eq spec_filter_fp_def Let_def fadd_def fdiv_def
        fsub_def)
  show ?thesis
    using l e o applyGuitarFrequencyFilter_fp_eq [of ar x] by blast
qed

text \<open>
  In binary64 and binary32: the frame \<open>[1, 0]\<close>, whose second filtered sample is the single
  nearest to 0.8, and a frame of nine samples of the largest single magnitude, whose first
  output overflows. The roundings that occur on these frames come first.
\<close>

lemma filter_rounding_1:
  "binary32 (3 / 4) = Fin (3 / 4)"
  by (rule binary32_near [where e = "- 1" and n = "12582912"])
    (simp_all add: pow2_def)

lemma filter_rounding_2:
  "binary64 (3 / 4) = Fin (3 / 4)"
  by (rule binary64_near [where e = "- 1" and n = "6755399441055744"])
    (simp_all add: pow2_def)

lemma filter_rounding_3:
  "binary32 1 = Fin 1"
  by (rule binary32_near [where e = "0" and n = "8388608"])
    (simp_all add: pow2_def)

lemma filter_rounding_4:
  "binary64 1 = Fin 1"
  by (rule binary64_near [where e = "0" and n = "4503599627370496"])
    (simp_all add: pow2_def)

lemma filter_rounding_5:
  "binary64 (4 / 5) = Fin (3602879701896397 / 4503599627370496)"
  by (rule binary64_near [where e = "- 1" and n = "7205759403792794"])
    (simp_all add: pow2_def)

lemma filter_rounding_6:
  "binary64 (3602879701896397 / 4503599627370496) = Fin (3602879701896397 / 4503599627370496)"
  by (rule binary64_near [where e = "- 1" and n = "7205759403792794"])
    (simp_all add: pow2_def)

lemma filter_rounding_7:
  "binary64 (900719925474099 / 4503599627370496) = Fin (900719925474099 / 4503599627370496)"
  by (rule binary64_near [where e = "- 3" and n = "7205759403792792"])
    (simp_all add: pow2_def)

lemma filter_rounding_8:
  "binary32 (3602879701896397 / 4503599627370496) = Fin (13421773 / 16777216)"
  by (rule binary32_near [where e = "- 1" and n = "13421773"])
    (simp_all add: pow2_def)

lemma filter_rounding_9:
  "binary64 (30198989 / 16777216) = Fin (30198989 / 16777216)"
  by (rule binary64_near [where e = "0" and n = "8106479382953984"])
    (simp_all add: pow2_def)

lemma filter_rounding_10:
  "binary64 (30198989 / 33554432) = Fin (30198989 / 33554432)"
  by (rule binary64_near [where e = "- 1" and n = "8106479382953984"])
    (simp_all add: pow2_def)

lemma filter_rounding_11:
  "binary64 (3355443 / 33554432) = Fin (3355443 / 33554432)"
  by (rule binary64_near [where e = "- 4" and n = "7205758974296064"])
    (simp_all add: pow2_def)

lemma filter_rounding_12:
  "binary32 (3355443 / 33554432) = Fin (3355443 / 33554432)"
  by (rule binary32_near [where e = "- 4" and n = "13421772"])
    (simp_all add: pow2_def)

lemma filter_rounding_13:
  "binary64 (- (3355443 / 33554432)) = Fin (- (3355443 / 33554432))"
  by (rule binary64_near [where e = "- 4" and n = "- 7205758974296064"])
    (simp_all add: pow2_def)

lemma filter_rounding_14:
  "binary32 (- (3355443 / 33554432)) = Fin (- (3355443 / 33554432))"
  by (rule binary32_near [where e = "- 4" and n = "- 13421772"])
    (simp_all add: pow2_def)

lemma filter_rounding_15:
  "binary32 340282346638528859811704183484516925440 = Fin 340282346638528859811704183484516925440"
  by (rule binary32_near [where e = "127" and n = "16777215"])
    (simp_all add: pow2_def)

lemma filter_rounding_16:
  "binary64 272225877310823102960935191250552750080 = Fin 272225877310823087849363346787613540352"
  by (rule binary64_near [where e = "127" and n = "7205758974296064"])
    (simp_all add: pow2_def)

lemma filter_rounding_17:
  "binary64 (- 68056469327705756850768992233964175360) =
   Fin (- 68056469327705753072874905218322530304)"
  by (rule binary64_near [where e = "125" and n = "- 7205758974296062"])
    (simp_all add: pow2_def)

lemma filter_rounding_18:
  "binary64 204169407983117334776488441569291010048 = Fin 204169407983117315887022510090710155264"
  by (rule binary64_tie [where e = "127" and m = "5404319230722048"])
    (simp_all add: pow2_def)

lemma filter_rounding_19:
  "binary32 204169407983117315887022510090710155264 = Fin 204169407983117315887022510090710155264"
  by (rule binary32_near [where e = "127" and n = "10066329"])
    (simp_all add: pow2_def)

lemma filter_rounding_20:
  "binary64 163335526386493861776561114750331650048 = Fin 163335526386493856487511194368284295168"
  by (rule binary64_near [where e = "126" and n = "8646910769155277"])
    (simp_all add: pow2_def)

lemma filter_rounding_21:
  "binary64 95279057058788103414636289149961764864 = Fin 95279057058788103414636289149961764864"
  by (rule binary64_near [where e = "126" and n = "5044031282007246"])
    (simp_all add: pow2_def)

lemma filter_rounding_22:
  "binary32 95279057058788103414636289149961764864 = Fin 95279053002306160016943086586214481920"
  by (rule binary32_near [where e = "126" and n = "9395240"])
    (simp_all add: pow2_def)

lemma filter_rounding_23:
  "binary64 76223242401844932244794405574609469440 = Fin 76223242401844928013554469268971585536"
  by (rule binary64_near [where e = "125" and n = "8070449707614208"])
    (simp_all add: pow2_def)

lemma filter_rounding_24:
  "binary64 8166773074139174940679564050649055232 = Fin 8166773074139174940679564050649055232"
  by (rule binary64_near [where e = "122" and n = "6917525866545168"])
    (simp_all add: pow2_def)

lemma filter_rounding_25:
  "binary32 8166773074139174940679564050649055232 = Fin 8166773074139156051213632572068200448"
  by (rule binary32_near [where e = "122" and n = "12884896"])
    (simp_all add: pow2_def)

lemma filter_rounding_26:
  "binary64 6533418459311325203648486209577025536 = Fin 6533418459311325313207554344619081728"
  by (rule binary64_near [where e = "122" and n = "5534020693236122"])
    (simp_all add: pow2_def)

lemma filter_rounding_27:
  "binary64 (- 61523050868394427759667350873703448576) =
   Fin (- 61523050868394430120850592308526055424)"
  by (rule binary64_near [where e = "125" and n = "- 6514006387641547"])
    (simp_all add: pow2_def)

lemma filter_rounding_28:
  "binary32 (- 61523050868394430120850592308526055424) =
   Fin (- 61523048840153486756202888244523696128)"
  by (rule binary32_near [where e = "125" and n = "- 12133282"])
    (simp_all add: pow2_def)

lemma filter_rounding_29:
  "binary64 (- 49218439072122792137134525294676279296) =
   Fin (- 49218439072122787516015717447760871424)"
  by (rule binary64_near [where e = "125" and n = "- 5211204938314547"])
    (simp_all add: pow2_def)

lemma filter_rounding_30:
  "binary64 (- 117274908399828540588890622666083401728) =
   Fin (- 117274908399828531144157656926792974336)"
  by (rule binary64_tie [where e = "126" and m = "- 6208481956305305"])
    (simp_all add: pow2_def)

lemma filter_rounding_31:
  "binary32 (- 117274908399828531144157656926792974336) =
   Fin (- 117274910428069521732470189687247470592)"
  by (rule binary32_near [where e = "126" and n = "- 11564199"])
    (simp_all add: pow2_def)

lemma filter_rounding_32:
  "binary64 (- 93819928342455622594028382473624223744) =
   Fin (- 93819928342455628719655710636946489344)"
  by (rule binary64_near [where e = "126" and n = "- 4966785650943591"])
    (simp_all add: pow2_def)

lemma filter_rounding_33:
  "binary64 (- 161876397670161381792530615855269019648) =
   Fin (- 161876397670161381792530615855269019648)"
  by (rule binary64_near [where e = "126" and n = "- 8569665138091622"])
    (simp_all add: pow2_def)

lemma filter_rounding_34:
  "binary32 (- 161876397670161381792530615855269019648) =
   Fin (- 161876395641920428983149946051976232960)"
  by (rule binary32_near [where e = "126" and n = "- 15962245"])
    (simp_all add: pow2_def)

lemma filter_rounding_35:
  "binary64 (- 129501116513536350375276020241237278720) =
   Fin (- 129501116513536343186519956841580986368)"
  by (rule binary64_near [where e = "126" and n = "- 6855732024573952"])
    (simp_all add: pow2_def)

lemma filter_rounding_36:
  "binary64 (- 197557585841242096259394862059903516672) =
   Fin (- 197557585841242115148860793538484371456)"
  by (rule binary64_tie [where e = "127" and m = "- 5229305755860992"])
    (simp_all add: pow2_def)

lemma filter_rounding_37:
  "binary32 (- 197557585841242115148860793538484371456) =
   Fin (- 197557585841242115148860793538484371456)"
  by (rule binary32_near [where e = "127" and n = "- 9740341"])
    (simp_all add: pow2_def)

lemma filter_rounding_38:
  "binary64 (- 158046068672993700892407854443100372992) =
   Fin (- 158046068672993707230661380013652180992)"
  by (rule binary64_near [where e = "126" and n = "- 8366889209377588"])
    (simp_all add: pow2_def)

lemma filter_rounding_39:
  "binary64 (- 226102538000699460303536285231974711296) =
   Fin (- 226102538000699479193002216710555566080)"
  by (rule binary64_tie [where e = "127" and m = "- 5984884348262810"])
    (simp_all add: pow2_def)

lemma filter_rounding_40:
  "binary32 (- 226102538000699479193002216710555566080) =
   Fin (- 226102542057181384811763556317141139456)"
  by (rule binary32_near [where e = "127" and n = "- 11147716"])
    (simp_all add: pow2_def)

lemma filter_rounding_41:
  "binary64 340282346638528859811704183484516925440 = Fin 340282346638528859811704183484516925440"
  by (rule binary64_near [where e = "127" and n = "9007198717870080"])
    (simp_all add: pow2_def)

lemma filter_rounding_42:
  "binary64 544451754621646175698726693575227080704 = Fin 544451754621646175698726693575227080704"
  by (rule binary64_near [where e = "128" and n = "7205758974296064"])
    (simp_all add: pow2_def)

lemma filter_rounding_43:
  "binary64 639730807623952335715669780161441562624 = Fin 639730807623952335715669780161441562624"
  by (rule binary64_near [where e = "128" and n = "8466766741110784"])
    (simp_all add: pow2_def)

lemma filter_rounding_44:
  "binary64 647897580698091491766883412733509763072 = Fin 647897580698091491766883412733509763072"
  by (rule binary64_near [where e = "128" and n = "8574853082775552"])
    (simp_all add: pow2_def)

lemma filter_rounding_45:
  "binary64 586374531857938005010680524488986066944 = Fin 586374531857938005010680524488986066944"
  by (rule binary64_near [where e = "128" and n = "7760602311163904"])
    (simp_all add: pow2_def)

lemma filter_rounding_46:
  "binary64 469099621429868483278210334801738596352 = Fin 469099621429868483278210334801738596352"
  by (rule binary64_near [where e = "128" and n = "6208481795244032"])
    (simp_all add: pow2_def)

lemma filter_rounding_47:
  "binary64 307223225787948054295060388749762363392 = Fin 307223225787948054295060388749762363392"
  by (rule binary64_near [where e = "127" and n = "8132131075129344"])
    (simp_all add: pow2_def)

lemma filter_rounding_48:
  "binary64 109665639946705939146199595211277991936 = Fin 109665639946705939146199595211277991936"
  by (rule binary64_near [where e = "126" and n = "5805650638536704"])
    (simp_all add: pow2_def)

lemma filter_rounding_49:
  "binary64 (- 116436902110475445665563961105863147520) =
   Fin (- 116436902110475445665563961105863147520)"
  by (rule binary64_near [where e = "126" and n = "- 6164118272737280"])
    (simp_all add: pow2_def)

lemma filter_rounding_50:
  "binary64 (- (116436902110475445665563961105863147520 / 9)) =
   Fin (- 12937433567830605598658938219500929024)"
  by (rule binary64_near [where e = "123" and n = "- 5479216242433138"])
    (simp_all add: pow2_def)

lemma filter_rounding_51:
  "binary64 353219780206359465410363121704017854464 = Fin 353219780206359498466928501791534350336"
  by (rule binary64_near [where e = "128" and n = "4674824866511076"])
    (simp_all add: pow2_def)

lemma filter_rounding_52:
  "binary32 353219780206359498466928501791534350336 = PosInf"
  using binary32_overflow [where e = "128" and n = "8707540" and x = "353219780206359498466928501791534350336"]
  by (simp add: pow2_def)

lemma filter_rounding_53:
  "binary64 217106841550947921485681448310211084288 = Fin 217106841550947916763314965440565870592"
  by (rule binary64_near [where e = "127" and n = "5746770245874119"])
    (simp_all add: pow2_def)

lemma filter_rounding_54:
  "binary32 217106841550947916763314965440565870592 = Fin 217106847184950588641993623532264751104"
  by (rule binary32_near [where e = "127" and n = "10704194"])
    (simp_all add: pow2_def)

lemma filter_rounding_55:
  "binary64 108216486570136765615602024805715410944 = Fin 108216486570136760893235541936070197248"
  by (rule binary64_near [where e = "126" and n = "5728933097563022"])
    (simp_all add: pow2_def)

lemma filter_rounding_56:
  "binary32 108216486570136760893235541936070197248 = Fin 108216482062934630946078988054143434752"
  by (rule binary32_near [where e = "126" and n = "10670969"])
    (simp_all add: pow2_def)

lemma filter_rounding_57:
  "binary64 21104206641969761649872570791569129472 = Fin 21104206641969761649872570791569129472"
  by (rule binary64_near [where e = "123" and n = "8937979175705714"])
    (simp_all add: pow2_def)

lemma filter_rounding_58:
  "binary32 21104206641969761649872570791569129472 = Fin 21104207205370027893267140026809974784"
  by (rule binary32_near [where e = "123" and n = "16648284"])
    (simp_all add: pow2_def)

lemma filter_rounding_59:
  "binary64 (- 48585615272322881157543950025022767104) =
   Fin (- 48585615272322885879910432894667980800)"
  by (rule binary64_tie [where e = "125" and m = "- 5144202112284900"])
    (simp_all add: pow2_def)

lemma filter_rounding_60:
  "binary32 (- 48585615272322885879910432894667980800) =
   Fin (- 48585614708922614914149380789781921792)"
  by (rule binary32_near [where e = "125" and n = "- 9581823"])
    (simp_all add: pow2_def)

lemma filter_rounding_61:
  "binary64 (- 104337476860238916133811251467746541568) =
   Fin (- 104337476860238920856177734337391755264)"
  by (rule binary64_near [where e = "126" and n = "- 5523580033375346"])
    (simp_all add: pow2_def)

lemma filter_rounding_62:
  "binary32 (- 104337476860238920856177734337391755264) =
   Fin (- 104337481367441050803334288219318517760)"
  by (rule binary32_near [where e = "126" and n = "- 10288470"])
    (simp_all add: pow2_def)

lemma filter_rounding_63:
  "binary64 (- 148938962074089823384491007832475303936) =
   Fin (- 148938962074089828106857490702120517632)"
  by (rule binary64_near [where e = "126" and n = "- 7884763000413298"])
    (simp_all add: pow2_def)

lemma filter_rounding_64:
  "binary32 (- 148938962074089828106857490702120517632) =
   Fin (- 148938966581291958054014044584047280128)"
  by (rule binary32_near [where e = "126" and n = "- 14686516"])
    (simp_all add: pow2_def)

lemma filter_rounding_65:
  "binary64 (- 184620152273411509550201855318983442432) =
   Fin (- 184620152273411514272568338188628656128)"
  by (rule binary64_near [where e = "127" and n = "- 4886854740708921"])
    (simp_all add: pow2_def)

lemma filter_rounding_66:
  "binary32 (- 184620152273411514272568338188628656128) =
   Fin (- 184620146639408842393889680096929775616)"
  by (rule binary32_near [where e = "127" and n = "- 9102476"])
    (simp_all add: pow2_def)

lemma filter_rounding_67:
  "binary64 (- 213165108489350779213104618097640210432) =
   Fin (- 213165108489350783935471100967285424128)"
  by (rule binary64_near [where e = "127" and n = "- 5642433440484921"])
    (simp_all add: pow2_def)

lemma filter_rounding_68:
  "binary32 (- 213165108489350783935471100967285424128) =
   Fin (- 213165102855348112056792442875586543616)"
  by (rule binary32_near [where e = "127" and n = "- 10509851"])
    (simp_all add: pow2_def)

lemmas filter_roundings =
  filter_rounding_1 filter_rounding_2 filter_rounding_3 filter_rounding_4 filter_rounding_5
  filter_rounding_6 filter_rounding_7 filter_rounding_8 filter_rounding_9 filter_rounding_10
  filter_rounding_11 filter_rounding_12 filter_rounding_13 filter_rounding_14
  filter_rounding_15 filter_rounding_16 filter_rounding_17 filter_rounding_18
  filter_rounding_19 filter_rounding_20 filter_rounding_21 filter_rounding_22
  filter_rounding_23 filter_rounding_24 filter_rounding_25 filter_rounding_26
  filter_rounding_27 filter_rounding_28 filter_rounding_29 filter_rounding_30
  filter_rounding_31 filter_rounding_32 filter_rounding_33 filter_rounding_34
  filter_rounding_35 filter_rounding_36 filter_rounding_37 filter_rounding_38
  filter_rounding_39 filter_rounding_40 filter_rounding_41 filter_rounding_42
  filter_rounding_43 filter_rounding_44 filter_rounding_45 filter_rounding_46
  filter_rounding_47 filter_rounding_48 filter_rounding_49 filter_rounding_50
  filter_rounding_51 filter_rounding_52 filter_rounding_53 filter_rounding_54
  filter_rounding_55 filter_rounding_56 filter_rounding_57 filter_rounding_58
  filter_rounding_59 filter_rounding_60 filter_rounding_61 filter_rounding_62
  filter_rounding_63 filter_rounding_64 filter_rounding_65 filter_rounding_66
  filter_rounding_67 filter_rounding_68

lemma spec_filter_two:
  "spec_filter_fp ieee
     [Fin 1, Fin 0] =
     [Fin (3355443 / 33554432), Fin (- (3355443 / 33554432))]"
proof -
  have y: "map (lowpass_fp ieee
     [Fin 1, Fin 0]) [0..<2] =
     [Fin 1, Fin (13421773 / 16777216)]"
    by (simp add: upt_rec eval_nat_numeral rounded_ops filter_roundings)
  show ?thesis
    unfolding spec_filter_fp_def Let_def list.size y
    by (simp add: rounded_ops filter_roundings)
qed

lemma spec_filter_largest:
  "spec_filter_fp ieee
     [Fin 340282346638528859811704183484516925440,
      Fin (- 340282346638528859811704183484516925440),
      Fin (- 340282346638528859811704183484516925440),
      Fin (- 340282346638528859811704183484516925440),
      Fin (- 340282346638528859811704183484516925440),
      Fin (- 340282346638528859811704183484516925440),
      Fin (- 340282346638528859811704183484516925440),
      Fin (- 340282346638528859811704183484516925440),
      Fin (- 340282346638528859811704183484516925440)] =
     [PosInf, Fin 217106847184950588641993623532264751104,
      Fin 108216482062934630946078988054143434752,
      Fin 21104207205370027893267140026809974784,
      Fin (- 48585614708922614914149380789781921792),
      Fin (- 104337481367441050803334288219318517760),
      Fin (- 148938966581291958054014044584047280128),
      Fin (- 184620146639408842393889680096929775616),
      Fin (- 213165102855348112056792442875586543616)]"
proof -
  have y: "map (lowpass_fp ieee
     [Fin 340282346638528859811704183484516925440,
      Fin (- 340282346638528859811704183484516925440),
      Fin (- 340282346638528859811704183484516925440),
      Fin (- 340282346638528859811704183484516925440),
      Fin (- 340282346638528859811704183484516925440),
      Fin (- 340282346638528859811704183484516925440),
      Fin (- 340282346638528859811704183484516925440),
      Fin (- 340282346638528859811704183484516925440),
      Fin (- 340282346638528859811704183484516925440)]) [0..<9] =
     [Fin 340282346638528859811704183484516925440,
      Fin 204169407983117315887022510090710155264,
      Fin 95279053002306160016943086586214481920,
      Fin 8166773074139156051213632572068200448,
      Fin (- 61523048840153486756202888244523696128),
      Fin (- 117274910428069521732470189687247470592),
      Fin (- 161876395641920428983149946051976232960),
      Fin (- 197557585841242115148860793538484371456),
      Fin (- 226102542057181384811763556317141139456)]"
    by (simp add: upt_rec eval_nat_numeral rounded_ops filter_roundings)
  show ?thesis
    unfolding spec_filter_fp_def Let_def list.size y
    by (simp add: rounded_ops filter_roundings)
qed

theorem applyGuitarFrequencyFilter_rounded_witness:
  "sgl ieee (3 / 4) = Fin (3 / 4) \<and> dbl ieee (3 / 4) = Fin (3 / 4) \<and>
   dbl ieee 0 = Fin 0 \<and> sgl ieee 0 = Fin 0 \<and>
   applyGuitarFrequencyFilter_fp ieee [Fin (3 / 4)] = [Fin 0] \<and>
   applyGuitarFrequencyFilter_fp ieee [Fin 1, Fin 0] =
     [Fin (3355443 / 33554432), Fin (- (3355443 / 33554432))] \<and>
   applyGuitarFrequencyFilter_fp ieee
     [Fin 340282346638528859811704183484516925440,
         Fin (- 340282346638528859811704183484516925440),
         Fin (- 340282346638528859811704183484516925440),
         Fin (- 340282346638528859811704183484516925440),
         Fin (- 340282346638528859811704183484516925440),
         Fin (- 340282346638528859811704183484516925440),
         Fin (- 340282346638528859811704183484516925440),
         Fin (- 340282346638528859811704183484516925440),
         Fin (- 340282346638528859811704183484516925440)] ! 0 = PosInf"
  using applyGuitarFrequencyFilter_rounded [of ieee "[Fin (3 / 4)]" "3 / 4"]
    applyGuitarFrequencyFilter_rounded [of ieee "[Fin 1, Fin 0]"]
    applyGuitarFrequencyFilter_rounded [of ieee
      "[Fin 340282346638528859811704183484516925440,
         Fin (- 340282346638528859811704183484516925440),
         Fin (- 340282346638528859811704183484516925440),
         Fin (- 340282346638528859811704183484516925440),
         Fin (- 340282346638528859811704183484516925440),
         Fin (- 340282346638528859811704183484516925440),
         Fin (- 340282346638528859811704183484516925440),
         Fin (- 340282346638528859811704183484516925440),
         Fin (- 340282346638528859811704183484516925440)]"]
  unfolding spec_filter_two spec_filter_largest
  by (simp add: filter_roundings)

text \<open>
  C6 as stated fails on a frame of one sample: the sample is its own mean, so the filter
  returns 0 and not the sample.
\<close>

theorem applyGuitarFrequencyFilter_single_counterexample:
  "applyGuitarFrequencyFilter_fp ieee [Fin 1] = [Fin 0] \<and>
   applyGuitarFrequencyFilter_fp ieee [Fin 1] \<noteq> [Fin 1]"
  by (simp add: applyGuitarFrequencyFilter_fp_eq spec_filter_fp_def Let_def rounded_ops
      filter_roundings)

section \<open>The autocorrelation in the arithmetic of the program\<close>


text \<open>
  In binary64 and binary32: an alternating frame, a constant frame, and a frame of the
  largest single magnitude, on which a centred sample overflows to \<open>-\<infinity>\<close>, the sum of
  squares is \<open>+\<infinity>\<close> and every entry is NaN. The roundings that occur on these frames
  come first.
\<close>

lemma autocorrelate_rounding_1:
  "binary64 1 = Fin 1"
  by (rule binary64_near [where e = "0" and n = "4503599627370496"])
    (simp_all add: pow2_def)

lemma autocorrelate_rounding_2:
  "binary32 1 = Fin 1"
  by (rule binary32_near [where e = "0" and n = "8388608"])
    (simp_all add: pow2_def)

lemma autocorrelate_rounding_3:
  "binary64 (- 1) = Fin (- 1)"
  by (rule binary64_near [where e = "0" and n = "- 4503599627370496"])
    (simp_all add: pow2_def)

lemma autocorrelate_rounding_4:
  "binary32 (- 1) = Fin (- 1)"
  by (rule binary32_near [where e = "0" and n = "- 8388608"])
    (simp_all add: pow2_def)

lemma autocorrelate_rounding_5:
  "binary64 2 = Fin 2"
  by (rule binary64_near [where e = "1" and n = "4503599627370496"])
    (simp_all add: pow2_def)

lemma autocorrelate_rounding_6:
  "binary64 3 = Fin 3"
  by (rule binary64_near [where e = "1" and n = "6755399441055744"])
    (simp_all add: pow2_def)

lemma autocorrelate_rounding_7:
  "binary64 4 = Fin 4"
  by (rule binary64_near [where e = "2" and n = "4503599627370496"])
    (simp_all add: pow2_def)

lemma autocorrelate_rounding_8:
  "binary64 (- 2) = Fin (- 2)"
  by (rule binary64_near [where e = "1" and n = "- 4503599627370496"])
    (simp_all add: pow2_def)

lemma autocorrelate_rounding_9:
  "binary64 (- 3) = Fin (- 3)"
  by (rule binary64_near [where e = "1" and n = "- 6755399441055744"])
    (simp_all add: pow2_def)

lemma autocorrelate_rounding_10:
  "binary64 (- (3 / 4)) = Fin (- (3 / 4))"
  by (rule binary64_near [where e = "- 1" and n = "- 6755399441055744"])
    (simp_all add: pow2_def)

lemma autocorrelate_rounding_11:
  "binary32 (- (3 / 4)) = Fin (- (3 / 4))"
  by (rule binary32_near [where e = "- 1" and n = "- 12582912"])
    (simp_all add: pow2_def)

lemma autocorrelate_rounding_12:
  "binary64 6 = Fin 6"
  by (rule binary64_near [where e = "2" and n = "6755399441055744"])
    (simp_all add: pow2_def)

lemma autocorrelate_rounding_13:
  "binary64 340282346638528859811704183484516925440 = Fin 340282346638528859811704183484516925440"
  by (rule binary64_near [where e = "127" and n = "9007198717870080"])
    (simp_all add: pow2_def)

lemma autocorrelate_rounding_14:
  "binary64 680564693277057719623408366969033850880 = Fin 680564693277057719623408366969033850880"
  by (rule binary64_near [where e = "128" and n = "9007198717870080"])
    (simp_all add: pow2_def)

lemma autocorrelate_rounding_15:
  "binary64 1020847039915586579435112550453550776320 =
   Fin 1020847039915586579435112550453550776320"
  by (rule binary64_near [where e = "129" and n = "6755399038402560"])
    (simp_all add: pow2_def)

lemma autocorrelate_rounding_16:
  "binary64 170141173319264429905852091742258462720 = Fin 170141173319264429905852091742258462720"
  by (rule binary64_near [where e = "126" and n = "9007198717870080"])
    (simp_all add: pow2_def)

lemma autocorrelate_rounding_17:
  "binary32 170141173319264429905852091742258462720 = Fin 170141173319264429905852091742258462720"
  by (rule binary32_near [where e = "126" and n = "16777215"])
    (simp_all add: pow2_def)

lemma autocorrelate_rounding_18:
  "binary64 (- 510423519957793289717556275226775388160) =
   Fin (- 510423519957793289717556275226775388160)"
  by (rule binary64_near [where e = "128" and n = "- 6755399038402560"])
    (simp_all add: pow2_def)

lemma autocorrelate_rounding_19:
  "binary32 (- 510423519957793289717556275226775388160) = NegInf"
  using binary32_overflow [where e = "128" and n = "- 12582911" and x = "- 510423519957793289717556275226775388160"]
  by (simp add: pow2_def)

lemma autocorrelate_rounding_20:
  "binary64 28948018858455978304645685110171680510378679775262216345662720519457629798400 =
   Fin 28948018858455978304645685110171680510378679775262216345662720519457629798400"
  by (rule binary64_near [where e = "253" and n = "9007198180999200"])
    (simp_all add: pow2_def)

lemma autocorrelate_rounding_21:
  "binary64 57896037716911956609291370220343361020757359550524432691325441038915259596800 =
   Fin 57896037716911956609291370220343361020757359550524432691325441038915259596800"
  by (rule binary64_near [where e = "254" and n = "9007198180999200"])
    (simp_all add: pow2_def)

lemma autocorrelate_rounding_22:
  "binary64 86844056575367934913937055330515041531136039325786649036988161558372889395200 =
   Fin 86844056575367934913937055330515041531136039325786649036988161558372889395200"
  by (rule binary64_near [where e = "255" and n = "6755398635749400"])
    (simp_all add: pow2_def)

lemmas autocorrelate_roundings =
  autocorrelate_rounding_1 autocorrelate_rounding_2 autocorrelate_rounding_3
  autocorrelate_rounding_4 autocorrelate_rounding_5 autocorrelate_rounding_6
  autocorrelate_rounding_7 autocorrelate_rounding_8 autocorrelate_rounding_9
  autocorrelate_rounding_10 autocorrelate_rounding_11 autocorrelate_rounding_12
  autocorrelate_rounding_13 autocorrelate_rounding_14 autocorrelate_rounding_15
  autocorrelate_rounding_16 autocorrelate_rounding_17 autocorrelate_rounding_18
  autocorrelate_rounding_19 autocorrelate_rounding_20 autocorrelate_rounding_21
  autocorrelate_rounding_22

lemma mean_alternating:
  "mean_fp ieee
     [Fin 1, Fin (- 1), Fin 1, Fin (- 1)] = Fin 0"
  by (simp add: mean_fp_def rounded_ops autocorrelate_roundings)

lemma centered_alternating:
  "centered_fp ieee
     [Fin 1, Fin (- 1), Fin 1, Fin (- 1)] =
     [Fin 1, Fin (- 1), Fin 1, Fin (- 1)]"
  unfolding centered_fp_def mean_alternating by (simp add: rounded_ops autocorrelate_roundings)


lemma lagProducts_alternating_0:
  "lagProducts_fp ieee
     [Fin 1, Fin (- 1), Fin 1, Fin (- 1)] 0 = Fin 4"
  unfolding lagProducts_fp_def centered_alternating
  by (simp add: rounded_ops autocorrelate_roundings upt_rec)


lemma mean_constant:
  "mean_fp ieee
     [Fin 3, Fin 3] = Fin 3"
  by (simp add: mean_fp_def rounded_ops autocorrelate_roundings)

lemma centered_constant:
  "centered_fp ieee
     [Fin 3, Fin 3] =
     [Fin 0, Fin 0]"
  unfolding centered_fp_def mean_constant by (simp add: rounded_ops autocorrelate_roundings)


lemma lagProducts_constant_0:
  "lagProducts_fp ieee
     [Fin 3, Fin 3] 0 = Fin 0"
  unfolding lagProducts_fp_def centered_constant
  by (simp add: rounded_ops autocorrelate_roundings upt_rec)







section \<open>The sub-sample refinement in the arithmetic of the program\<close>

text \<open>
  C7. In the arithmetic of the program, whatever its rounding to double is, the refiner
  returns for every array of correlations and every peak index \<open>p\<close> the quotient
  \<open>sampleRate / p\<close> when \<open>p \<le> 0\<close> or \<open>p \<ge> length - 1\<close>, or when the computed
  \<open>a = (y1 - 2 \<sqdot> y2 + y3) / 2\<close> is 0; otherwise it returns \<open>sampleRate / (p + offset)\<close> with
  \<open>offset = - b / (2 \<sqdot> a)\<close> and \<open>b = (y3 - y1) / 2\<close>, each operation rounded.
\<close>

theorem parabolicInterpolation_rounded:
  "(peakIndex \<le> 0 \<or> peakIndex \<ge> int (length cs) - 1 \<longrightarrow>
      parabolicInterpolation_fp ar this cs peakIndex =
        fdiv ar (Fin (this_sampleRate this)) (Fin (real_of_int peakIndex))) \<and>
   (0 < peakIndex \<and> peakIndex < int (length cs) - 1 \<longrightarrow>
      (let y1 = cs ! nat (peakIndex - 1); y2 = cs ! nat peakIndex; y3 = cs ! nat (peakIndex + 1);
           a = fdiv ar (fadd ar (fsub ar y1 (fmul ar (Fin 2) y2)) y3) (Fin 2);
           b = fdiv ar (fsub ar y3 y1) (Fin 2)
       in (strict_eq a (Fin 0) \<longrightarrow>
             parabolicInterpolation_fp ar this cs peakIndex =
               fdiv ar (Fin (this_sampleRate this)) (Fin (real_of_int peakIndex))) \<and>
          (\<not> strict_eq a (Fin 0) \<longrightarrow>
             parabolicInterpolation_fp ar this cs peakIndex =
               fdiv ar (Fin (this_sampleRate this))
                 (fadd ar (Fin (real_of_int peakIndex))
                    (fdiv ar (- b) (fmul ar (Fin 2) a))))))"
proof (intro conjI impI)
  assume "peakIndex \<le> 0 \<or> peakIndex \<ge> int (length cs) - 1"
  then show "parabolicInterpolation_fp ar this cs peakIndex =
        fdiv ar (Fin (this_sampleRate this)) (Fin (real_of_int peakIndex))"
    by (simp add: parabolicInterpolation_fp_def)
next
  assume inner: "0 < peakIndex \<and> peakIndex < int (length cs) - 1"
  then have r1: "arr_get cs (peakIndex - 1) = cs ! nat (peakIndex - 1)"
    and r2: "arr_get cs peakIndex = cs ! nat peakIndex"
    and r3: "arr_get cs (peakIndex + 1) = cs ! nat (peakIndex + 1)"
    by (simp_all add: arr_get_def)
  have branch: "\<not> (peakIndex \<le> 0 \<or> peakIndex \<ge> int (length cs) - 1)"
    using inner by simp
  show "let y1 = cs ! nat (peakIndex - 1); y2 = cs ! nat peakIndex; y3 = cs ! nat (peakIndex + 1);
           a = fdiv ar (fadd ar (fsub ar y1 (fmul ar (Fin 2) y2)) y3) (Fin 2);
           b = fdiv ar (fsub ar y3 y1) (Fin 2)
       in (strict_eq a (Fin 0) \<longrightarrow>
             parabolicInterpolation_fp ar this cs peakIndex =
               fdiv ar (Fin (this_sampleRate this)) (Fin (real_of_int peakIndex))) \<and>
          (\<not> strict_eq a (Fin 0) \<longrightarrow>
             parabolicInterpolation_fp ar this cs peakIndex =
               fdiv ar (Fin (this_sampleRate this))
                 (fadd ar (Fin (real_of_int peakIndex))
                    (fdiv ar (- b) (fmul ar (Fin 2) a))))"
    unfolding parabolicInterpolation_fp_def if_not_P [OF branch] r1 r2 r3
    by (simp add: Let_def)
qed

text \<open>
  In binary64, at a sample rate of 100: a peak index 0; neighbours \<open>2\<^sup>-\<^sup>6\<^sup>0\<close>, 1 and 2, for
  which \<open>2\<^sup>-\<^sup>6\<^sup>0 - 2\<close> rounds to \<open>-2\<close> and the computed \<open>a\<close> is 0; and neighbours 0, 3 and 2.
\<close>

lemma refiner_rounding_1:
  "binary64 2 = Fin 2"
  by (rule binary64_near [where e = "1" and n = "4503599627370496"])
    (simp_all add: pow2_def)

lemma refiner_rounding_2:
  "binary64 (- (2305843009213693951 / 1152921504606846976)) = Fin (- 2)"
  by (rule binary64_near [where e = "0" and n = "- 9007199254740992"])
    (simp_all add: pow2_def)

lemma refiner_rounding_3:
  "binary64 (2305843009213693951 / 1152921504606846976) = Fin 2"
  by (rule binary64_near [where e = "0" and n = "9007199254740992"])
    (simp_all add: pow2_def)

lemma refiner_rounding_4:
  "binary64 1 = Fin 1"
  by (rule binary64_near [where e = "0" and n = "4503599627370496"])
    (simp_all add: pow2_def)

lemma refiner_rounding_5:
  "binary64 50 = Fin 50"
  by (rule binary64_near [where e = "5" and n = "7036874417766400"])
    (simp_all add: pow2_def)

lemma refiner_rounding_6:
  "binary64 6 = Fin 6"
  by (rule binary64_near [where e = "2" and n = "6755399441055744"])
    (simp_all add: pow2_def)

lemma refiner_rounding_7:
  "binary64 (- 6) = Fin (- 6)"
  by (rule binary64_near [where e = "2" and n = "- 6755399441055744"])
    (simp_all add: pow2_def)

lemma refiner_rounding_8:
  "binary64 (- 4) = Fin (- 4)"
  by (rule binary64_near [where e = "2" and n = "- 4503599627370496"])
    (simp_all add: pow2_def)

lemma refiner_rounding_9:
  "binary64 (- 2) = Fin (- 2)"
  by (rule binary64_near [where e = "1" and n = "- 4503599627370496"])
    (simp_all add: pow2_def)

lemma refiner_rounding_10:
  "binary64 (1 / 4) = Fin (1 / 4)"
  by (rule binary64_near [where e = "- 2" and n = "4503599627370496"])
    (simp_all add: pow2_def)

lemma refiner_rounding_11:
  "binary64 (9 / 4) = Fin (9 / 4)"
  by (rule binary64_near [where e = "1" and n = "5066549580791808"])
    (simp_all add: pow2_def)

lemma refiner_rounding_12:
  "binary64 (400 / 9) = Fin (3127499741229511 / 70368744177664)"
  by (rule binary64_near [where e = "5" and n = "6254999482459022"])
    (simp_all add: pow2_def)

lemmas refiner_roundings =
  refiner_rounding_1 refiner_rounding_2 refiner_rounding_3 refiner_rounding_4
  refiner_rounding_5 refiner_rounding_6 refiner_rounding_7 refiner_rounding_8
  refiner_rounding_9 refiner_rounding_10 refiner_rounding_11 refiner_rounding_12

theorem parabolicInterpolation_rounded_witness:
  "((0::int) \<le> 0 \<or>
      0 \<ge> int (length [Fin 0, Fin (1 / 1152921504606846976), Fin 1, Fin 2, Fin 0]) - 1) \<and>
   parabolicInterpolation_fp ieee smallDetector
     [Fin 0, Fin (1 / 1152921504606846976), Fin 1, Fin 2, Fin 0] 0 = PosInf \<and>
   (0 < (2::int) \<and>
      2 < int (length [Fin 0, Fin (1 / 1152921504606846976), Fin 1, Fin 2, Fin 0]) - 1) \<and>
   parabolicInterpolation_fp ieee smallDetector
     [Fin 0, Fin (1 / 1152921504606846976), Fin 1, Fin 2, Fin 0] 2 = Fin 50 \<and>
   parabolicInterpolation_fp ieee smallDetector [Fin 0, Fin 0, Fin 3, Fin 2, Fin 0] 2 =
     Fin (3127499741229511 / 70368744177664)"
  using parabolicInterpolation_rounded
      [of 0 "[Fin 0, Fin (1 / 1152921504606846976), Fin 1, Fin 2, Fin 0]" ieee smallDetector]
    parabolicInterpolation_rounded
      [of 2 "[Fin 0, Fin (1 / 1152921504606846976), Fin 1, Fin 2, Fin 0]" ieee smallDetector]
    parabolicInterpolation_rounded [of 2 "[Fin 0, Fin 0, Fin 3, Fin 2, Fin 0]" ieee smallDetector]
  by (simp add: smallDetector_def Let_def strict_eq_def rounded_ops refiner_roundings)

section \<open>Cents and the in-tune flag in the arithmetic of the program\<close>

text \<open>
  C1 (as amended). In the arithmetic of the program, whatever its rounding to double and
  its \<^verbatim>\<open>Math.log2\<close> are, for every finite frequency \<open>f > 0\<close> and every confidence
  \<open>analyzeNote\<close> names an entry of the table to whose frequency \<open>ref\<close> (a double) the
  computed distance from \<open>f\<close> is such that no entry has a smaller one; the cents value is
  \<^verbatim>\<open>Math.round\<close> of the double computed for \<open>1200 \<sqdot> log\<^sub>2 (f / ref)\<close>, that is the nearest
  integer with a tie going towards \<open>+\<infinity>\<close>, for both signs, and an infinity when that double
  is one; and the in-tune flag holds exactly when the cents value is a finite integer \<open>n\<close>
  with \<open>\<bar>n\<bar> \<le> 5\<close>.
\<close>

theorem analyzeNote_rounded_cents:
  assumes "0 < f"
  shows "noteName (analyzeNote_fp ar (Fin f) c) \<in> fst ` set GUITAR_TUNING \<and>
     (\<forall>p \<in> set GUITAR_TUNING.
        \<not> \<bar>fsub ar (Fin f) (dbl ar (snd p))\<bar> <
          \<bar>fsub ar (Fin f) (tuningOf_fp ar (noteName (analyzeNote_fp ar (Fin f) c)))\<bar>) \<and>
     cents (analyzeNote_fp ar (Fin f) c) =
       Math_round (fmul ar (Fin 1200)
         (Math_log2_fp ar
            (fdiv ar (Fin f) (tuningOf_fp ar (noteName (analyzeNote_fp ar (Fin f) c)))))) \<and>
     (isInTune (analyzeNote_fp ar (Fin f) c) \<longleftrightarrow>
        (\<exists>n::int. cents (analyzeNote_fp ar (Fin f) c) = Fin (of_int n) \<and> \<bar>n\<bar> \<le> 5))"
proof -
  have n: "noteName (analyzeNote_fp ar (Fin f) c) = getClosestGuitarNote_fp ar (Fin f)"
    by (simp add: analyzeNote_fp_def Let_def)
  have c: "cents (analyzeNote_fp ar (Fin f) c) =
       Math_round (fmul ar (Fin 1200)
         (Math_log2_fp ar (fdiv ar (Fin f) (tuningOf_fp ar (getClosestGuitarNote_fp ar (Fin f))))))"
    by (simp add: analyzeNote_fp_def Let_def calculateCentsDifference_fp_def)
  have i: "isInTune (analyzeNote_fp ar (Fin f) c) \<longleftrightarrow>
             \<bar>cents (analyzeNote_fp ar (Fin f) c)\<bar> \<le> Fin 5"
    by (simp add: analyzeNote_fp_def Let_def TUNING_TOLERANCE_CENTS_def)
  show ?thesis
    unfolding i unfolding n c inTune_iff
    using getClosest_fp_in_table [of ar "Fin f"] by simp
qed

text \<open>
  In binary64 with a correctly rounded logarithm: at 110 Hz the note is A2, 0 cents, in
  tune; at the least positive double the quotient \<open>f / ref\<close> rounds to 0, its logarithm is
  \<open>-\<infinity>\<close>, and so is the cents value.
\<close>

theorem analyzeNote_rounded_cents_witness:
  "(0::real) < 110 \<and>
   noteName (analyzeNote_fp ieee (Fin 110) (Fin 1)) = ''A2'' \<and>
   cents (analyzeNote_fp ieee (Fin 110) (Fin 1)) = Fin 0 \<and>
   isInTune (analyzeNote_fp ieee (Fin 110) (Fin 1)) \<and>
   (0::real) < 1 / 2 ^ 1074 \<and>
   noteName (analyzeNote_fp ieee (Fin (1 / 2 ^ 1074)) (Fin 1)) = ''E2'' \<and>
   cents (analyzeNote_fp ieee (Fin (1 / 2 ^ 1074)) (Fin 1)) = NegInf \<and>
   \<not> isInTune (analyzeNote_fp ieee (Fin (1 / 2 ^ 1074)) (Fin 1))"
proof -
  have p1: "(0::real) < 110"
    by simp
  have n1: "noteName (analyzeNote_fp ieee (Fin 110) (Fin 1)) = ''A2''"
    by (simp add: analyzeNote_fp_def Let_def closest_A2)
  have v1: "Math_round (fmul ieee (Fin 1200)
              (Math_log2_fp ieee (fdiv ieee (Fin 110) (tuningOf_fp ieee ''A2'')))) = Fin 0"
    unfolding tuningOf_A2 A2_ratio by (simp add: fmul_def)
  have c1: "cents (analyzeNote_fp ieee (Fin 110) (Fin 1)) = Fin 0"
    and i1: "isInTune (analyzeNote_fp ieee (Fin 110) (Fin 1)) \<longleftrightarrow>
              (\<exists>n::int. cents (analyzeNote_fp ieee (Fin 110) (Fin 1)) = Fin (of_int n) \<and>
                 \<bar>n\<bar> \<le> 5)"
    using analyzeNote_rounded_cents [OF p1, of ieee "Fin 1"] unfolding n1 v1 by simp_all
  have "\<exists>n::int. Fin 0 = Fin (of_int n) \<and> \<bar>n\<bar> \<le> 5"
    by (rule exI [of _ 0]) simp
  then have t1: "isInTune (analyzeNote_fp ieee (Fin 110) (Fin 1))"
    unfolding i1 c1 .
  have p2: "(0::real) < 1 / 2 ^ 1074"
    by simp
  have n2: "noteName (analyzeNote_fp ieee (Fin (1 / 2 ^ 1074)) (Fin 1)) = ''E2''"
    unfolding analyzeNote_fp_def Let_def closest_least by simp
  have v2: "Math_round (fmul ieee (Fin 1200)
              (Math_log2_fp ieee (fdiv ieee (Fin (1 / 2 ^ 1074)) (tuningOf_fp ieee ''E2'')))) =
            NegInf"
    unfolding tuningOf_E2 least_ratio by (simp add: fmul_def inf_of_sign_def)
  have c2: "cents (analyzeNote_fp ieee (Fin (1 / 2 ^ 1074)) (Fin 1)) = NegInf"
    and i2: "isInTune (analyzeNote_fp ieee (Fin (1 / 2 ^ 1074)) (Fin 1)) \<longleftrightarrow>
              (\<exists>n::int. cents (analyzeNote_fp ieee (Fin (1 / 2 ^ 1074)) (Fin 1)) =
                 Fin (of_int n) \<and> \<bar>n\<bar> \<le> 5)"
    using analyzeNote_rounded_cents [OF p2, of ieee "Fin 1"] unfolding n2 v2 by blast+
  have t2: "\<not> isInTune (analyzeNote_fp ieee (Fin (1 / 2 ^ 1074)) (Fin 1))"
    unfolding i2 c2 by simp
  show ?thesis
    using p1 n1 c1 t1 p2 n2 c2 t2 by blast
qed

text \<open>
  C1 as stated fails on a negative tie. At the double \<open>f = 64.93829072267046\<close> the nearest
  pitch is E2, whose frequency is the double of 82.41. In binary64 with a correctly rounded
  logarithm the double computed for \<open>1200 \<sqdot> log\<^sub>2 (f / ref)\<close> is \<open>-412.5\<close> exactly: the code
  returns \<open>-412\<close>, while rounding a tie away from zero gives \<open>-413\<close>; and \<open>-413\<close> is also
  what that rounding gives for the real number \<open>1200 \<sqdot> log\<^sub>2 (f / 82.41)\<close>, which lies just
  below \<open>-412.5\<close>.
\<close>

theorem analyzeNote_negative_tie_counterexample:
  "noteName (analyzeNote_fp ieee (Fin (4569625967198369 / 70368744177664)) (Fin 1)) = ''E2'' \<and>
   tuningOf_fp ieee ''E2'' = Fin (2899544103840645 / 35184372088832) \<and>
   fmul ieee (Fin 1200)
     (Math_log2_fp ieee
        (fdiv ieee (Fin (4569625967198369 / 70368744177664))
           (Fin (2899544103840645 / 35184372088832)))) = Fin (- (825 / 2)) \<and>
   cents (analyzeNote_fp ieee (Fin (4569625967198369 / 70368744177664)) (Fin 1)) = Fin (- 412) \<and>
   round_half_away (- (825 / 2)) = - 413 \<and>
   round_half_away (1200 * log 2 (4569625967198369 / 70368744177664 / 82.41)) = - 413"
proof -
  have n: "noteName (analyzeNote_fp ieee (Fin (4569625967198369 / 70368744177664)) (Fin 1)) = ''E2''"
    by (simp add: analyzeNote_fp_def Let_def closest_tie)
  have v: "fmul ieee (Fin 1200)
     (Math_log2_fp ieee
        (fdiv ieee (Fin (4569625967198369 / 70368744177664))
           (Fin (2899544103840645 / 35184372088832)))) = Fin (- (825 / 2))"
    unfolding tie_ratio by (simp add: log2_ratio tie_scaled)
  have c: "cents (analyzeNote_fp ieee (Fin (4569625967198369 / 70368744177664)) (Fin 1)) =
             Fin (- 412)"
    by (simp add: analyzeNote_fp_def Let_def closest_tie tuningOf_E2 cents_tie)
  have r: "round_half_away (- (825 / 2)) = - 413"
    by (simp add: round_half_away_def)
  show ?thesis
    using n tuningOf_E2 v c r exact_cents_tie by blast
qed

end
